theory Spec2Isabelle
  imports Complex_Main "HOL-Library.Sublist"
begin

section \<open>The link graph of the analytics module\<close>

text \<open>
  Both analysers keep the graph in a Python \<^verbatim>\<open>defaultdict(list)\<close>: a dictionary from a
  site id to the list of its neighbours, in the order the entries were appended, with the
  keys in the order they were first written. The model is an association list with the
  same order; reading a missing key gives the empty list.
\<close>

type_synonym site_id = nat
type_synonym graph = "(site_id \<times> site_id list) list"

definition adj :: "graph \<Rightarrow> site_id \<Rightarrow> site_id list" where
  "adj g v = (case map_of g v of None \<Rightarrow> [] | Some ns \<Rightarrow> ns)"

text \<open>\<^verbatim>\<open>g[k].append(v)\<close>: a new key goes to the end, an old one keeps its place.\<close>

fun append_adj :: "graph \<Rightarrow> site_id \<Rightarrow> site_id \<Rightarrow> graph" where
  "append_adj [] k v = [(k, [v])]"
| "append_adj ((k', ns) # g) k v =
     (if k' = k then (k', ns @ [v]) # g else (k', ns) # append_adj g k v)"

text \<open>
  The loaders read \<^verbatim>\<open>SELECT DISTINCT from_site_id, to_site_id FROM friend_links WHERE
  from_site_id != to_site_id\<close>: the rows without self-loops, each pair once.
\<close>

record friend_link =
  fl_id :: nat
  from_site_id :: site_id
  to_site_id :: site_id
  link_type :: string
  page_url :: string

definition select_distinct_links :: "friend_link list \<Rightarrow> (site_id \<times> site_id) list" where
  "select_distinct_links rows =
     remdups (map (\<lambda>r. (from_site_id r, to_site_id r))
                  (filter (\<lambda>r. from_site_id r \<noteq> to_site_id r) rows))"

text \<open>
  \<^verbatim>\<open>load_data_from_db\<close> of the clustering analyser: every link appends the target to the
  directed graph, and one entry at each endpoint of the undirected graph.
\<close>

definition load_link :: "graph \<times> graph \<Rightarrow> site_id \<times> site_id \<Rightarrow> graph \<times> graph" where
  "load_link gs l =
     (case gs of (g, u) \<Rightarrow> case l of (from_id, to_id) \<Rightarrow>
        (append_adj g from_id to_id,
         append_adj (append_adj u from_id to_id) to_id from_id))"

definition load_data_from_db :: "(site_id \<times> site_id) list \<Rightarrow> graph \<times> graph" where
  "load_data_from_db links = foldl load_link ([], []) links"

definition directed_graph :: "(site_id \<times> site_id) list \<Rightarrow> graph" where
  "directed_graph links = fst (load_data_from_db links)"

definition undirected_graph :: "(site_id \<times> site_id) list \<Rightarrow> graph" where
  "undirected_graph links = snd (load_data_from_db links)"

subsection \<open>Clustering and transitivity\<close>

text \<open>
  Both metrics walk over the pairs \<open>i < j\<close> of a neighbour list and count those with
  \<^verbatim>\<open>neighbors[j] in undirected_graph[neighbors[i]]\<close>.
\<close>

fun pairs_adjacent :: "graph \<Rightarrow> site_id list \<Rightarrow> nat" where
  "pairs_adjacent g [] = 0"
| "pairs_adjacent g (n1 # rest) =
     length (filter (\<lambda>n2. n2 \<in> set (adj g n1)) rest) + pairs_adjacent g rest"

text \<open>
  \<^verbatim>\<open>calculate_local_clustering_coefficient\<close> first turns the neighbour list into a set.
  A Python set has no promised order; the model walks it in the order of first
  occurrence. Floats are modelled as reals.
\<close>

definition calculate_local_clustering_coefficient :: "graph \<Rightarrow> site_id \<Rightarrow> real" where
  "calculate_local_clustering_coefficient g node =
     (let neighbors = remdups (adj g node);
          k = length neighbors
      in if k < 2 then 0
         else let actual_edges = pairs_adjacent g neighbors;
                  possible_edges = real k * (real k - 1) / 2
              in if possible_edges > 0 then real actual_edges / possible_edges else 0)"

record transitivity_result =
  transitivity :: real
  triangles :: real
  triplets :: real

fun transitivity_loop :: "graph \<Rightarrow> site_id list \<Rightarrow> nat \<times> real \<Rightarrow> nat \<times> real" where
  "transitivity_loop g [] acc = acc"
| "transitivity_loop g (node # nodes) (tri, trip) =
     (let neighbors = adj g node;
          k = length neighbors
      in if k < 2 then transitivity_loop g nodes (tri, trip)
         else transitivity_loop g nodes
                (tri + pairs_adjacent g neighbors, trip + real k * (real k - 1) / 2))"

definition calculate_transitivity :: "graph \<Rightarrow> transitivity_result" where
  "calculate_transitivity g =
     (case transitivity_loop g (map fst g) (0, 0) of (tri, trip) \<Rightarrow>
        let tri3 = real tri / 3
        in \<lparr>transitivity = (if trip > 0 then (3 * tri3) / trip else 0),
            triangles = tri3,
            triplets = trip\<rparr>)"

subsection \<open>The numpy calls of the analysers\<close>

text \<open>
  The analysers call \<^verbatim>\<open>np.mean\<close>, \<^verbatim>\<open>np.average\<close> and \<^verbatim>\<open>np.corrcoef\<close>. Their results are
  floats, here reals, with the one special value the code tests for. On an empty list
  \<^verbatim>\<open>np.mean\<close> warns and returns \<^verbatim>\<open>nan\<close>; \<^verbatim>\<open>np.average\<close> raises
  \<^verbatim>\<open>ZeroDivisionError\<close> when the weights sum to zero; \<^verbatim>\<open>np.corrcoef\<close> divides the
  covariance by the two standard deviations and returns \<^verbatim>\<open>nan\<close> where that is \<open>0 / 0\<close>.
\<close>

datatype py_error = ZeroDivisionError | ValueError | KeyError

datatype npfloat = Num real | NaN

definition np_mean :: "real list \<Rightarrow> npfloat" where
  "np_mean xs = (if xs = [] then NaN else Num (sum_list xs / real (length xs)))"

definition np_average :: "real list \<Rightarrow> real list \<Rightarrow> py_error + real" where
  "np_average xs weights =
     (if sum_list weights = 0 then Inl ZeroDivisionError
      else Inr (sum_list (map2 (\<lambda>x w. x * w) xs weights) / sum_list weights))"

definition np_cov :: "real list \<Rightarrow> real list \<Rightarrow> real" where
  "np_cov xs ys =
     (let n = real (length xs);
          mx = sum_list xs / n;
          my = sum_list ys / n
      in sum_list (map2 (\<lambda>x y. (x - mx) * (y - my)) xs ys) / (n - 1))"

definition np_corrcoef :: "real list \<Rightarrow> real list \<Rightarrow> npfloat" where
  "np_corrcoef xs ys =
     (if np_cov xs xs = 0 \<or> np_cov ys ys = 0 then NaN
      else Num (np_cov xs ys / sqrt (np_cov xs xs) / sqrt (np_cov ys ys)))"

subsection \<open>Global clustering, assortativity\<close>

record clustering_result =
  average_clustering :: npfloat
  weighted_clustering :: real
  all_coefficients :: "real list"
  degrees :: "nat list"

definition calculate_global_clustering_coefficient :: "graph \<Rightarrow> py_error + clustering_result" where
  "calculate_global_clustering_coefficient g =
     (let clustering_coefficients = map (calculate_local_clustering_coefficient g) (map fst g);
          degs = map (\<lambda>node. length (adj g node)) (map fst g);
          avg_clustering = np_mean clustering_coefficients
      in case np_average clustering_coefficients (map real degs) of
           Inl e \<Rightarrow> Inl e
         | Inr weighted \<Rightarrow>
             Inr \<lparr>average_clustering = avg_clustering,
                  weighted_clustering = weighted,
                  all_coefficients = clustering_coefficients,
                  degrees = degs\<rparr>)"

text \<open>
  The assortativity samples: one pair (degree of the node, degree of the neighbour) for
  every entry of every adjacency list.
\<close>

definition degree_pairs :: "graph \<Rightarrow> (nat \<times> nat) list" where
  "degree_pairs g =
     concat (map (\<lambda>node. map (\<lambda>neighbor. (length (adj g node), length (adj g neighbor)))
                                (adj g node))
                 (map fst g))"

definition calculate_degree_assortativity :: "graph \<Rightarrow> real" where
  "calculate_degree_assortativity g =
     (let degs = map (\<lambda>node. length (adj g node)) (map fst g)
      in if degs = [] then 0
         else let source_degrees = map fst (degree_pairs g);
                  target_degrees = map snd (degree_pairs g)
              in if source_degrees = [] then 0
                 else case np_corrcoef (map real source_degrees) (map real target_degrees) of
                        NaN \<Rightarrow> 0
                      | Num correlation \<Rightarrow> correlation)"

subsection \<open>Connected components and modularity\<close>

text \<open>
  \<^verbatim>\<open>find_connected_components\<close>: the sets \<^verbatim>\<open>visited\<close> and \<^verbatim>\<open>component\<close> are lists without
  repetition here, the deque a list. The inner \<^verbatim>\<open>for\<close> loop marks and queues the
  neighbours not seen before.
\<close>

fun visit_neighbors :: "site_id list \<Rightarrow> site_id list \<times> site_id list \<Rightarrow> site_id list \<times> site_id list" where
  "visit_neighbors [] vq = vq"
| "visit_neighbors (neighbor_id # rest) (visited, queue) =
     (if neighbor_id \<notin> set visited
      then visit_neighbors rest (visited @ [neighbor_id], queue @ [neighbor_id])
      else visit_neighbors rest (visited, queue))"

definition graph_targets :: "graph \<Rightarrow> site_id set" where
  "graph_targets g = set (concat (map snd g))"

lemma adj_subset_targets: "set (adj g v) \<subseteq> graph_targets g"
proof (cases "map_of g v")
  case None
  then show ?thesis by (simp add: adj_def)
next
  case (Some ns)
  then have "(v, ns) \<in> set g" by (rule map_of_SomeD)
  then have "set ns \<subseteq> graph_targets g"
    by (force simp: graph_targets_def)
  with Some show ?thesis by (simp add: adj_def)
qed

lemma visit_neighbors_shape:
  "\<exists>new. visit_neighbors ns (visited, queue) = (visited @ new, queue @ new)
         \<and> set new \<subseteq> set ns - set visited"
proof (induction ns arbitrary: visited queue)
  case Nil
  then show ?case by simp
next
  case (Cons n ns)
  show ?case
  proof (cases "n \<in> set visited")
    case True
    with Cons.IH [of visited queue] show ?thesis by auto
  next
    case False
    from Cons.IH [of "visited @ [n]" "queue @ [n]"]
    obtain new where "visit_neighbors ns (visited @ [n], queue @ [n])
                        = ((visited @ [n]) @ new, (queue @ [n]) @ new)"
      and "set new \<subseteq> set ns - set (visited @ [n])" by blast
    with False show ?thesis
      by (intro exI [of _ "n # new"]) auto
  qed
qed

lemma visit_neighbors_decreases:
  assumes "visit_neighbors (adj g cur) (visited, queue) = (visited', queue')"
  shows "card (graph_targets g - set visited') < card (graph_targets g - set visited)
         \<or> (card (graph_targets g - set visited') = card (graph_targets g - set visited)
            \<and> length queue' = length queue)"
proof -
  from visit_neighbors_shape [of "adj g cur" visited queue] assms
  obtain new where v: "visited' = visited @ new" and q: "queue' = queue @ new"
    and sub: "set new \<subseteq> set (adj g cur) - set visited" by auto
  have fin: "finite (graph_targets g - set visited)"
    by (simp add: graph_targets_def)
  show ?thesis
  proof (cases new)
    case Nil
    with v q show ?thesis by simp
  next
    case (Cons x xs)
    with sub adj_subset_targets [of g cur]
    have "x \<in> graph_targets g - set visited" and "x \<notin> graph_targets g - set visited'"
      using v by auto
    moreover have "graph_targets g - set visited' \<subseteq> graph_targets g - set visited"
      using v by auto
    ultimately have "graph_targets g - set visited' \<subset> graph_targets g - set visited"
      by blast
    with fin show ?thesis
      by (simp add: psubset_card_mono)
  qed
qed

function bfs_component_loop ::
  "graph \<Rightarrow> site_id list \<Rightarrow> site_id list \<Rightarrow> site_id list \<Rightarrow> site_id list \<times> site_id list" where
  "bfs_component_loop g [] visited component = (visited, component)"
| "bfs_component_loop g (current_id # queue) visited component =
     (case visit_neighbors (adj g current_id) (visited, queue) of
        (visited', queue') \<Rightarrow>
          bfs_component_loop g queue' visited'
            (if current_id \<in> set component then component else component @ [current_id]))"
  by pat_completeness auto
termination
proof (relation "inv_image (less_than <*lex*> less_than)
                   (\<lambda>(g, queue, visited, component).
                      (card (graph_targets g - set visited), length queue))",
       goal_cases)
  case 1
  show ?case
    by (intro wf_inv_image wf_lex_prod wf_less_than)
next
  case (2 g current_id queue visited component visited' queue')
  then have "visit_neighbors (adj g current_id) (visited, queue) = (visited', queue')"
    by simp
  from visit_neighbors_decreases [OF this] show ?case
    by auto
qed

definition bfs_component :: "graph \<Rightarrow> site_id \<Rightarrow> site_id list \<Rightarrow> site_id list \<times> site_id list" where
  "bfs_component g start_id visited = bfs_component_loop g [start_id] (visited @ [start_id]) []"

fun components_loop ::
  "graph \<Rightarrow> site_id list \<Rightarrow> site_id list \<Rightarrow> site_id list list \<Rightarrow> site_id list list" where
  "components_loop g [] visited components = components"
| "components_loop g (node_id # rest) visited components =
     (if node_id \<notin> set visited
      then case bfs_component g node_id visited of
             (visited', component) \<Rightarrow> components_loop g rest visited' (components @ [component])
      else components_loop g rest visited components)"

definition find_connected_components :: "graph \<Rightarrow> site_id list list" where
  "find_connected_components g = components_loop g (map fst g) [] []"

record modularity_result =
  modularity :: real
  community_count :: nat

definition intra_edges :: "graph \<Rightarrow> site_id list \<Rightarrow> real" where
  "intra_edges g community =
     real (sum_list (map (\<lambda>node. length (filter (\<lambda>neighbor. neighbor \<in> set community)
                                                  (adj g node)))
                         community)) / 2"

definition community_degree :: "graph \<Rightarrow> site_id list \<Rightarrow> nat" where
  "community_degree g community = sum_list (map (\<lambda>node. length (adj g node)) community)"

definition calculate_modularity :: "graph \<Rightarrow> modularity_result" where
  "calculate_modularity g =
     (let communities = find_connected_components g;
          count = length communities
      in if count \<le> 1 then \<lparr>modularity = 0, community_count = count\<rparr>
         else let total_edges = real (sum_list (map (\<lambda>(k, neighbors). length neighbors) g)) / 2
              in if total_edges = 0 then \<lparr>modularity = 0, community_count = count\<rparr>
                 else \<lparr>modularity =
                         sum_list (map (\<lambda>community.
                                          intra_edges g community / total_edges
                                          - (real (community_degree g community)
                                               / (2 * total_edges))\<^sup>2)
                                       communities),
                       community_count = count\<rparr>)"

subsection \<open>Shortest paths\<close>

text \<open>
  \<^verbatim>\<open>bfs_shortest_paths\<close> of the shortest-path analyser, over the directed graph. The
  dictionary \<^verbatim>\<open>distances\<close> is an association list in insertion order; assigning to a key
  that is present keeps its place.
\<close>

fun dict_set :: "('k \<times> 'v) list \<Rightarrow> 'k \<Rightarrow> 'v \<Rightarrow> ('k \<times> 'v) list" where
  "dict_set [] k v = [(k, v)]"
| "dict_set ((k', v') # d) k v = (if k' = k then (k', v) # d else (k', v') # dict_set d k v)"

fun relax_neighbors ::
  "site_id list \<Rightarrow> nat \<Rightarrow> site_id list \<times> (site_id \<times> nat) list \<times> site_id list
     \<Rightarrow> site_id list \<times> (site_id \<times> nat) list \<times> site_id list" where
  "relax_neighbors [] current_distance s = s"
| "relax_neighbors (neighbor_id # rest) current_distance (visited, distances, queue) =
     (if neighbor_id \<notin> set visited
      then relax_neighbors rest current_distance
             (visited @ [neighbor_id],
              dict_set distances neighbor_id (current_distance + 1),
              queue @ [neighbor_id])
      else relax_neighbors rest current_distance (visited, distances, queue))"

lemma relax_neighbors_visit:
  "relax_neighbors ns d (visited, distances, queue) = (visited', distances', queue')
   \<Longrightarrow> visit_neighbors ns (visited, queue) = (visited', queue')"
  by (induction ns arbitrary: visited distances queue) (auto split: if_splits)

function bfs_loop ::
  "graph \<Rightarrow> site_id list \<Rightarrow> site_id list \<Rightarrow> (site_id \<times> nat) list
     \<Rightarrow> py_error + (site_id \<times> nat) list" where
  "bfs_loop g [] visited distances = Inr distances"
| "bfs_loop g (current_id # queue) visited distances =
     (case map_of distances current_id of
        None \<Rightarrow> Inl KeyError
      | Some current_distance \<Rightarrow>
          (case relax_neighbors (adj g current_id) current_distance (visited, distances, queue) of
             (visited', distances', queue') \<Rightarrow> bfs_loop g queue' visited' distances'))"
  by pat_completeness auto
termination
proof (relation "inv_image (less_than <*lex*> less_than)
                   (\<lambda>(g, queue, visited, distances).
                      (card (graph_targets g - set visited), length queue))",
       goal_cases)
  case 1
  show ?case
    by (intro wf_inv_image wf_lex_prod wf_less_than)
next
  case (2 g current_id queue visited distances current_distance visited' rest distances' queue')
  then have "relax_neighbors (adj g current_id) current_distance (visited, distances, queue)
               = (visited', distances', queue')"
    by simp
  from visit_neighbors_decreases [OF relax_neighbors_visit [OF this]] show ?case
    by auto
qed

definition bfs_shortest_paths :: "graph \<Rightarrow> site_id \<Rightarrow> py_error + (site_id \<times> nat) list" where
  "bfs_shortest_paths g start_id = bfs_loop g [start_id] [start_id] [(start_id, 0)]"

text \<open>
  \<^verbatim>\<open>calculate_all_pairs_shortest_paths\<close>. The sample is drawn by \<^verbatim>\<open>np.random.choice\<close> with a
  fixed seed; the sampler is the parameter \<open>choice\<close>, which is given the ids and the size.
  A negative size makes numpy raise \<^verbatim>\<open>ValueError\<close>. The accumulators of the loop are the
  list of distances, \<^verbatim>\<open>reachable_pairs\<close> and \<^verbatim>\<open>total_pairs\<close>.
\<close>

fun all_pairs_loop ::
  "graph \<Rightarrow> nat \<Rightarrow> site_id list \<Rightarrow> nat list \<times> nat \<times> int \<Rightarrow> py_error + nat list \<times> nat \<times> int" where
  "all_pairs_loop g n_sampled [] acc = Inr acc"
| "all_pairs_loop g n_sampled (start_id # rest) (all_distances, reachable_pairs, total_pairs) =
     (case bfs_shortest_paths g start_id of
        Inl e \<Rightarrow> Inl e
      | Inr distances \<Rightarrow>
          (let others = filter (\<lambda>(target_id, distance). start_id \<noteq> target_id) distances
           in all_pairs_loop g n_sampled rest
                (all_distances @ map snd others,
                 reachable_pairs + length others,
                 total_pairs + (int n_sampled - 1))))"

definition calculate_all_pairs_shortest_paths ::
  "(site_id list \<Rightarrow> nat \<Rightarrow> site_id list) \<Rightarrow> graph \<Rightarrow> site_id list \<Rightarrow> int option
     \<Rightarrow> py_error + nat list \<times> real" where
  "calculate_all_pairs_shortest_paths choice g all_site_ids sample_size =
     (case (case sample_size of
              None \<Rightarrow> Inr all_site_ids
            | Some k \<Rightarrow>
                if k \<noteq> 0 \<and> k < int (length all_site_ids)
                then (if k < 0 then Inl ValueError else Inr (choice all_site_ids (nat k)))
                else Inr all_site_ids) of
        Inl e \<Rightarrow> Inl e
      | Inr sampled_ids \<Rightarrow>
          (case all_pairs_loop g (length sampled_ids) sampled_ids ([], 0, 0) of
             Inl e \<Rightarrow> Inl e
           | Inr (all_distances, reachable_pairs, total_pairs) \<Rightarrow>
               Inr (all_distances,
                    if total_pairs > 0 then real reachable_pairs / real_of_int total_pairs else 0)))"

section \<open>The identity resolver of the crawler\<close>

subsection \<open>Python strings\<close>

text \<open>
  A string is a list of bytes. \<^verbatim>\<open>str.strip()\<close> removes the characters for which
  \<^verbatim>\<open>str.isspace\<close> holds; below code point 128 these are the ten characters listed here
  (the Unicode spaces beyond ASCII are outside this model). \<^verbatim>\<open>str.lower()\<close> is modelled
  on the ASCII letters.
\<close>

definition py_isspace :: "char \<Rightarrow> bool" where
  "py_isspace c \<longleftrightarrow>
     c \<in> set [CHR 0x09, CHR 0x0A, CHR 0x0B, CHR 0x0C, CHR 0x0D,
                CHR 0x1C, CHR 0x1D, CHR 0x1E, CHR 0x1F, CHR 0x20]"

definition strip :: "string \<Rightarrow> string" where
  "strip s = rev (dropWhile py_isspace (rev (dropWhile py_isspace s)))"

definition rstrip :: "string \<Rightarrow> char \<Rightarrow> string" where
  "rstrip s c = rev (dropWhile (\<lambda>x. x = c) (rev s))"

definition lower_char :: "char \<Rightarrow> char" where
  "lower_char c =
     (case map_of (zip ''ABCDEFGHIJKLMNOPQRSTUVWXYZ'' ''abcdefghijklmnopqrstuvwxyz'') c of
        None \<Rightarrow> c
      | Some l \<Rightarrow> l)"

definition lower :: "string \<Rightarrow> string" where
  "lower s = map lower_char s"

text \<open>\<^verbatim>\<open>s.replace('www.', '')\<close>: every occurrence goes, from left to right.\<close>

fun replace_www :: "string \<Rightarrow> string" where
  "replace_www [] = []"
| "replace_www (c # cs) =
     (if prefix ''www.'' (c # cs) then replace_www (drop 3 cs) else c # replace_www cs)"

text \<open>\<^verbatim>\<open>s.split(c, 1)\<close> for a string that contains \<open>c\<close>.\<close>

definition split_at :: "char \<Rightarrow> string \<Rightarrow> string \<times> string" where
  "split_at c s = (takeWhile (\<lambda>x. x \<noteq> c) s, drop 1 (dropWhile (\<lambda>x. x \<noteq> c) s))"

subsection \<open>The calls into urllib.parse\<close>

text \<open>
  \<^verbatim>\<open>urlparse\<close> and \<^verbatim>\<open>urlunparse\<close> belong to the Python standard library. The model
  follows \<^verbatim>\<open>urlsplit\<close>, \<^verbatim>\<open>_splitnetloc\<close>, \<^verbatim>\<open>_splitparams\<close> and \<^verbatim>\<open>urlunsplit\<close> of
  CPython 3.11 step by step: leading control characters and spaces are dropped, tab, CR
  and LF are removed, the scheme is split off, a part after \<^verbatim>\<open>//\<close> up to the first of
  \<^verbatim>\<open>/?#\<close> is the netloc, then fragment, query and params are cut. A netloc with one
  bracket and not the other raises \<^verbatim>\<open>ValueError\<close>. Two checks of the library are not
  modelled: the validation of an address between two brackets, and the NFKC check of a
  netloc with characters beyond ASCII.
\<close>

record parse_result =
  scheme :: string
  netloc :: string
  path :: string
  params :: string
  query :: string
  fragment :: string

definition c0_control_or_space :: "char \<Rightarrow> bool" where
  "c0_control_or_space c \<longleftrightarrow> (of_char c :: nat) \<le> 32"

definition unsafe_url_byte :: "char \<Rightarrow> bool" where
  "unsafe_url_byte c \<longleftrightarrow> c \<in> set [CHR 0x09, CHR 0x0D, CHR 0x0A]"

definition ascii_letters :: string where
  "ascii_letters = ''abcdefghijklmnopqrstuvwxyzABCDEFGHIJKLMNOPQRSTUVWXYZ''"

definition scheme_chars :: string where
  "scheme_chars = ascii_letters @ ''0123456789+-.''"

definition uses_params :: "string list" where
  "uses_params = ['''', ''ftp'', ''hdl'', ''prospero'', ''http'', ''imap'', ''https'', ''shttp'',
                  ''rtsp'', ''rtsps'', ''rtspu'', ''sip'', ''sips'', ''mms'', ''sftp'', ''tel'']"

definition uses_netloc :: "string list" where
  "uses_netloc = ['''', ''ftp'', ''http'', ''gopher'', ''nntp'', ''telnet'', ''imap'', ''wais'',
                  ''file'', ''mms'', ''https'', ''shttp'', ''snews'', ''prospero'', ''rtsp'',
                  ''rtsps'', ''rtspu'', ''rsync'', ''svn'', ''svn+ssh'', ''sftp'', ''nfs'', ''git'',
                  ''git+ssh'', ''ws'', ''wss'']"

definition split_scheme :: "string \<Rightarrow> string \<times> string" where
  "split_scheme s =
     (let pre = takeWhile (\<lambda>c. c \<noteq> CHR '':'') s
      in if CHR '':'' \<in> set s \<and> pre \<noteq> [] \<and> hd pre \<in> set ascii_letters
            \<and> list_all (\<lambda>c. c \<in> set scheme_chars) pre
         then (lower pre, drop (length pre + 1) s)
         else ('''', s))"

definition netloc_char :: "char \<Rightarrow> bool" where
  "netloc_char c \<longleftrightarrow> c \<notin> set ''/?#''"

definition splitnetloc :: "string \<Rightarrow> string \<times> string" where
  "splitnetloc s = (takeWhile netloc_char (drop 2 s), dropWhile netloc_char (drop 2 s))"

definition urlsplit :: "string \<Rightarrow> py_error + string \<times> string \<times> string \<times> string \<times> string" where
  "urlsplit url0 =
     (case split_scheme (filter (\<lambda>c. \<not> unsafe_url_byte c) (dropWhile c0_control_or_space url0)) of
        (sch, s1) \<Rightarrow>
          (case (if take 2 s1 = ''//''
                 then (case splitnetloc s1 of
                         (nl, s2) \<Rightarrow>
                           if (CHR ''['' \<in> set nl \<and> CHR '']'' \<notin> set nl)
                              \<or> (CHR '']'' \<in> set nl \<and> CHR ''['' \<notin> set nl)
                           then Inl ValueError
                           else Inr (nl, s2))
                 else Inr ('''', s1)) of
             Inl e \<Rightarrow> Inl e
           | Inr (nl, s2) \<Rightarrow>
               (case (if CHR ''#'' \<in> set s2 then split_at CHR ''#'' s2 else (s2, '''')) of
                  (s3, frag) \<Rightarrow>
                    (case (if CHR ''?'' \<in> set s3 then split_at CHR ''?'' s3 else (s3, '''')) of
                       (s4, qry) \<Rightarrow> Inr (sch, nl, s4, qry, frag)))))"

definition splitparams :: "string \<Rightarrow> string \<times> string" where
  "splitparams s =
     (let seg = rev (takeWhile (\<lambda>c. c \<noteq> CHR ''/'') (rev s));
          before = take (length s - length seg) s
      in if CHR '';'' \<in> set seg
         then (before @ takeWhile (\<lambda>c. c \<noteq> CHR '';'') seg,
               drop 1 (dropWhile (\<lambda>c. c \<noteq> CHR '';'') seg))
         else (s, ''''))"

definition urlparse :: "string \<Rightarrow> py_error + parse_result" where
  "urlparse url0 =
     (case urlsplit url0 of
        Inl e \<Rightarrow> Inl e
      | Inr (sch, nl, s, qry, frag) \<Rightarrow>
          (case (if sch \<in> set uses_params \<and> CHR '';'' \<in> set s then splitparams s else (s, '''')) of
             (p, prm) \<Rightarrow>
               Inr \<lparr>scheme = sch, netloc = nl, path = p, params = prm,
                    query = qry, fragment = frag\<rparr>))"

definition urlunparse :: "string \<times> string \<times> string \<times> string \<times> string \<times> string \<Rightarrow> string" where
  "urlunparse components =
     (case components of (sch, nl, p, prm, qry, frag) \<Rightarrow>
        let u1 = (if prm \<noteq> [] then p @ '';'' @ prm else p);
            u2 = (if nl \<noteq> [] \<or> (sch \<noteq> [] \<and> sch \<in> set uses_netloc) \<or> take 2 u1 = ''//''
                  then ''//'' @ nl @ (if u1 \<noteq> [] \<and> take 1 u1 \<noteq> ''/'' then ''/'' @ u1 else u1)
                  else u1);
            u3 = (if sch \<noteq> [] then sch @ '':'' @ u2 else u2);
            u4 = (if qry \<noteq> [] then u3 @ ''?'' @ qry else u3)
        in if frag \<noteq> [] then u4 @ ''#'' @ frag else u4)"

subsection \<open>normalize\_url, extract\_domain and the site index\<close>

definition normalize_url :: "string \<Rightarrow> py_error + string option" where
  "normalize_url url0 =
     (if url0 = [] then Inr None
      else let u = strip url0
           in if prefix ''mailto:'' u \<or> prefix ''tel:'' u \<or> prefix ''javascript:'' u
                 \<or> prefix ''#'' u
              then Inr None
              else if \<not> (prefix ''http://'' u \<or> prefix ''https://'' u) then Inr None
              else let v = rstrip u CHR ''/''
                   in if suffix ''://'' v then Inr None
                      else case urlparse v of
                             Inl e \<Rightarrow> Inl e
                           | Inr parsed \<Rightarrow>
                               Inr (Some (urlunparse (scheme parsed, netloc parsed, path parsed,
                                                      params parsed, query parsed, ''''))))"

text \<open>\<^verbatim>\<open>extract_domain\<close> catches every exception of the parser and returns \<^verbatim>\<open>None\<close>.\<close>

definition extract_domain :: "string \<Rightarrow> string option" where
  "extract_domain u =
     (case urlparse u of
        Inl e \<Rightarrow> None
      | Inr parsed \<Rightarrow>
          (let d = lower (netloc parsed)
           in Some (if prefix ''www.'' d then drop 4 d else d)))"

record site =
  s_id :: site_id
  s_name :: string
  s_url :: string

text \<open>
  \<^verbatim>\<open>build_site_url_map\<close> fills two dictionaries: the exact URL of every site, and the
  scheme with the lowercased netloc after \<^verbatim>\<open>replace('www.', '')\<close>, where the first site
  with a base URL keeps it.
\<close>

definition base_url_of :: "parse_result \<Rightarrow> string" where
  "base_url_of parsed = scheme parsed @ ''://'' @ replace_www (lower (netloc parsed))"

fun build_site_url_map_loop ::
  "site list \<Rightarrow> (string \<rightharpoonup> site_id) \<times> (string \<rightharpoonup> site_id)
     \<Rightarrow> (string \<rightharpoonup> site_id) \<times> (string \<rightharpoonup> site_id)" where
  "build_site_url_map_loop [] maps = maps"
| "build_site_url_map_loop (st # rest) (url_map, base_url_map) =
     build_site_url_map_loop rest
       (url_map(s_url st \<mapsto> s_id st),
        (case urlparse (s_url st) of
           Inl e \<Rightarrow> base_url_map
         | Inr parsed \<Rightarrow>
             (if base_url_map (base_url_of parsed) = None
              then base_url_map(base_url_of parsed \<mapsto> s_id st)
              else base_url_map)))"

definition build_site_url_map ::
  "site list \<Rightarrow> (string \<rightharpoonup> site_id) \<times> (string \<rightharpoonup> site_id)" where
  "build_site_url_map all_sites = build_site_url_map_loop all_sites (Map.empty, Map.empty)"

definition get_site_by_url ::
  "string \<Rightarrow> (string \<rightharpoonup> site_id) \<Rightarrow> (string \<rightharpoonup> site_id) \<Rightarrow> site_id option" where
  "get_site_by_url u url_map base_url_map =
     (if u = [] then None
      else case url_map u of
             Some i \<Rightarrow> Some i
           | None \<Rightarrow>
               (case urlparse u of
                  Inl e \<Rightarrow> None
                | Inr parsed \<Rightarrow> base_url_map (base_url_of parsed)))"

section \<open>The graph store\<close>

text \<open>
  The tables are lists of rows in storage order. A candidate is a row of
  \<^verbatim>\<open>external_sites\<close> as the queue hands it to a worker; the stored row has the column
  \<^verbatim>\<open>processed\<close> besides (0 or NULL unclaimed, 3 claimed, 1 and 2 final). An
  \<^verbatim>\<open>AUTO_INCREMENT\<close> id is one more than the largest id in the table. Strings are
  compared character by character; the case-insensitive collation of the tables is
  outside the model. A failure of the connection leaves the store as it is and is not
  modelled.
\<close>

record candidate =
  es_id :: nat
  es_url :: string
  es_domain :: string
  discovered_from_site_id :: site_id
  discovered_from_page :: string
  es_link_type :: string

record external_site = candidate +
  processed :: "int option"

record db =
  sites :: "site list"
  friend_links :: "friend_link list"
  external_sites :: "external_site list"

definition next_id :: "nat list \<Rightarrow> nat" where
  "next_id ids = Suc (fold max ids 0)"

subsection \<open>batch\_save\_friend\_links\<close>

text \<open>
  The unique key of \<^verbatim>\<open>friend_links\<close> is
  \<^verbatim>\<open>UNIQUE KEY unique_friend_link (from_site_id, to_site_id, page_url(100))\<close>. A row is
  refused by the store when one of its two foreign keys has no site, or (strict SQL
  mode) a string is longer than its column.
\<close>

type_synonym friend_link_data = "site_id \<times> site_id \<times> string \<times> string"

definition unique_friend_link :: "friend_link \<Rightarrow> site_id \<times> site_id \<times> string" where
  "unique_friend_link r = (from_site_id r, to_site_id r, take 100 (page_url r))"

definition data_key :: "friend_link_data \<Rightarrow> site_id \<times> site_id \<times> string" where
  "data_key x = (case x of (f, t, lt, page) \<Rightarrow> (f, t, take 100 page))"

definition friend_link_accepted :: "db \<Rightarrow> friend_link_data \<Rightarrow> bool" where
  "friend_link_accepted d x =
     (case x of (f, t, lt, page) \<Rightarrow>
        f \<in> set (map s_id (sites d)) \<and> t \<in> set (map s_id (sites d))
        \<and> length lt \<le> 20 \<and> length page \<le> 500)"

text \<open>
  \<^verbatim>\<open>INSERT ... ON DUPLICATE KEY UPDATE id = id\<close> for one row: the table and the number
  of affected rows.
\<close>

definition insert_friend_link :: "friend_link list \<Rightarrow> friend_link_data \<Rightarrow> friend_link list \<times> nat" where
  "insert_friend_link rows x =
     (if data_key x \<in> set (map unique_friend_link rows) then (rows, 0)
      else (case x of (f, t, lt, page) \<Rightarrow>
              (rows @ [\<lparr>fl_id = next_id (map fl_id rows), from_site_id = f, to_site_id = t,
                         link_type = lt, page_url = page\<rparr>], 1)))"

fun executemany :: "friend_link_data list \<Rightarrow> friend_link list \<times> nat \<Rightarrow> friend_link list \<times> nat" where
  "executemany [] acc = acc"
| "executemany (t # rest) (rows, rowcount) =
     (case insert_friend_link rows t of
        (rows', n) \<Rightarrow> executemany rest (rows', rowcount + n))"

text \<open>
  When the batch statement fails (the error is then not a duplicate-key error), every
  row is tried on its own and \<^verbatim>\<open>saved_count\<close> counts the statements that did not raise.
\<close>

fun insert_one_by_one ::
  "db \<Rightarrow> friend_link_data list \<Rightarrow> friend_link list \<times> nat \<Rightarrow> friend_link list \<times> nat" where
  "insert_one_by_one d [] acc = acc"
| "insert_one_by_one d (t # rest) (rows, saved_count) =
     (if friend_link_accepted d t
      then insert_one_by_one d rest (fst (insert_friend_link rows t), saved_count + 1)
      else insert_one_by_one d rest (rows, saved_count))"

definition batch_save_friend_links :: "db \<Rightarrow> friend_link_data list \<Rightarrow> nat \<times> db" where
  "batch_save_friend_links d friend_links_data =
     (if friend_links_data = [] then (0, d)
      else case (if list_all (friend_link_accepted d) friend_links_data
                 then executemany friend_links_data (friend_links d, 0)
                 else insert_one_by_one d friend_links_data (friend_links d, 0)) of
             (rows, saved_count) \<Rightarrow> (saved_count, d\<lparr>friend_links := rows\<rparr>))"

subsection \<open>batch\_save\_external\_sites\<close>

text \<open>
  The same statement on \<^verbatim>\<open>external_sites\<close>, whose unique key is
  \<^verbatim>\<open>UNIQUE KEY unique_domain (domain(100))\<close>; a new row is unclaimed. The model is the
  default \<^verbatim>\<open>has_domain=True\<close>, the table as \<^verbatim>\<open>init_database\<close> leaves it.
\<close>

type_synonym external_site_data = "string \<times> string \<times> site_id \<times> string \<times> string"

definition external_site_accepted :: "db \<Rightarrow> external_site_data \<Rightarrow> bool" where
  "external_site_accepted d t =
     (case t of (u, dm, f, page, lt) \<Rightarrow>
        f \<in> set (map s_id (sites d))
        \<and> length u \<le> 500 \<and> length dm \<le> 255 \<and> length page \<le> 500 \<and> length lt \<le> 20)"

definition insert_external_site :: "external_site list \<Rightarrow> external_site_data \<Rightarrow> external_site list \<times> nat" where
  "insert_external_site rows t =
     (case t of (u, dm, f, page, lt) \<Rightarrow>
        if take 100 dm \<in> set (map (\<lambda>r. take 100 (es_domain r)) rows) then (rows, 0)
        else (rows @ [\<lparr>es_id = next_id (map es_id rows), es_url = u, es_domain = dm,
                        discovered_from_site_id = f, discovered_from_page = page,
                        es_link_type = lt, processed = Some 0\<rparr>], 1))"

fun executemany_external ::
  "external_site_data list \<Rightarrow> external_site list \<times> nat \<Rightarrow> external_site list \<times> nat" where
  "executemany_external [] acc = acc"
| "executemany_external (t # rest) (rows, rowcount) =
     (case insert_external_site rows t of
        (rows', n) \<Rightarrow> executemany_external rest (rows', rowcount + n))"

fun insert_external_one_by_one ::
  "db \<Rightarrow> external_site_data list \<Rightarrow> external_site list \<times> nat \<Rightarrow> external_site list \<times> nat" where
  "insert_external_one_by_one d [] acc = acc"
| "insert_external_one_by_one d (t # rest) (rows, saved_count) =
     (if external_site_accepted d t
      then insert_external_one_by_one d rest (fst (insert_external_site rows t), saved_count + 1)
      else insert_external_one_by_one d rest (rows, saved_count))"

definition batch_save_external_sites :: "db \<Rightarrow> external_site_data list \<Rightarrow> nat \<times> db" where
  "batch_save_external_sites d external_sites_data =
     (if external_sites_data = [] then (0, d)
      else case (if list_all (external_site_accepted d) external_sites_data
                 then executemany_external external_sites_data (external_sites d, 0)
                 else insert_external_one_by_one d external_sites_data (external_sites d, 0)) of
             (rows, saved_count) \<Rightarrow> (saved_count, d\<lparr>external_sites := rows\<rparr>))"

section \<open>The work claim queue\<close>

text \<open>
  \<^verbatim>\<open>get_unprocessed_external_sites\<close> runs three statements in one transaction:
  \<^verbatim>\<open>SELECT id ... WHERE (processed = 0 OR processed IS NULL) ORDER BY id LIMIT n FOR UPDATE\<close>,
  \<^verbatim>\<open>UPDATE ... SET processed = 3 WHERE id IN (ids) AND (processed = 0 OR processed IS NULL)\<close>
  and \<^verbatim>\<open>SELECT id, url, ... WHERE id IN (ids) AND processed = 3\<close>. The row locks of the first
  statement keep other transactions off the selected rows until the commit, so on these
  rows the three statements act as one step. A negative limit is an SQL error: the
  transaction is rolled back and the function returns the empty list.
\<close>

definition unclaimed :: "external_site \<Rightarrow> bool" where
  "unclaimed r \<longleftrightarrow> processed r = Some 0 \<or> processed r = None"

definition select_unclaimed_ids :: "nat \<Rightarrow> external_site list \<Rightarrow> nat list" where
  "select_unclaimed_ids n rows = take n (sort (map es_id (filter unclaimed rows)))"

definition update_claimed :: "nat list \<Rightarrow> external_site list \<Rightarrow> external_site list" where
  "update_claimed ids rows =
     map (\<lambda>r. if es_id r \<in> set ids \<and> unclaimed r then r\<lparr>processed := Some 3\<rparr> else r) rows"

definition select_claimed :: "nat list \<Rightarrow> external_site list \<Rightarrow> candidate list" where
  "select_claimed ids rows =
     map candidate.truncate (filter (\<lambda>r. es_id r \<in> set ids \<and> processed r = Some 3) rows)"

definition get_unprocessed_external_sites :: "int \<Rightarrow> db \<Rightarrow> candidate list \<times> db" where
  "get_unprocessed_external_sites limit d =
     (if limit < 0 then ([], d)
      else let ids = select_unclaimed_ids (nat limit) (external_sites d)
           in if ids = [] then ([], d)
              else let rows = update_claimed ids (external_sites d)
                   in (select_claimed ids rows, d\<lparr>external_sites := rows\<rparr>))"

section \<open>Promotion of an external site\<close>

text \<open>
  \<^verbatim>\<open>process_external_site\<close>. The page fetcher and the classifier are outside: the
  function gets the fetched page (markup and final URL, or nothing), the classifier's
  verdict and the extracted site name.
\<close>

definition mark_external_site_processed :: "nat \<Rightarrow> int \<Rightarrow> db \<Rightarrow> db" where
  "mark_external_site_processed external_id status d =
     d\<lparr>external_sites :=
         map (\<lambda>r. if es_id r = external_id then r\<lparr>processed := Some status\<rparr> else r)
             (external_sites d)\<rparr>"

definition delete_external_site :: "nat \<Rightarrow> db \<Rightarrow> db" where
  "delete_external_site external_id d =
     d\<lparr>external_sites := filter (\<lambda>r. es_id r \<noteq> external_id) (external_sites d)\<rparr>"

text \<open>
  The second half of the transaction: look the link up by its three columns, insert it
  when it is not there (a unique-key or foreign-key conflict is caught and the link
  counts as not created), delete the candidate, commit.
\<close>

definition link_and_delete :: "candidate \<Rightarrow> site_id \<Rightarrow> bool \<Rightarrow> db \<Rightarrow> (bool \<times> bool \<times> bool) \<times> db" where
  "link_and_delete ext sid added_to_sites d =
     (let existing_link =
            find (\<lambda>r. from_site_id r = discovered_from_site_id ext \<and> to_site_id r = sid
                       \<and> page_url r = discovered_from_page ext) (friend_links d);
          new_key = (discovered_from_site_id ext, sid, take 100 (discovered_from_page ext));
          integrity_error =
            (new_key \<in> set (map unique_friend_link (friend_links d))
             \<or> discovered_from_site_id ext \<notin> set (map s_id (sites d))
             \<or> sid \<notin> set (map s_id (sites d)));
          created_link = (existing_link = None \<and> \<not> integrity_error);
          d1 = (if created_link
                then d\<lparr>friend_links := friend_links d @
                         [\<lparr>fl_id = next_id (map fl_id (friend_links d)),
                           from_site_id = discovered_from_site_id ext, to_site_id = sid,
                           link_type = es_link_type ext,
                           page_url = discovered_from_page ext\<rparr>]\<rparr>
                else d)
      in ((True, added_to_sites, created_link), delete_external_site (es_id ext) d1))"

definition process_external_site ::
  "(string \<times> string) option \<Rightarrow> bool \<Rightarrow> string \<Rightarrow> candidate \<Rightarrow> db \<Rightarrow> (bool \<times> bool \<times> bool) \<times> db" where
  "process_external_site fetched is_blog site_name ext d =
     (case (case fetched of
              None \<Rightarrow> None
            | Some (html, final_url) \<Rightarrow> if html = [] then None else Some final_url) of
        None \<Rightarrow> ((False, False, False), mark_external_site_processed (es_id ext) 2 d)
      | Some final_url \<Rightarrow>
          if \<not> is_blog
          then ((False, False, False), mark_external_site_processed (es_id ext) 2 d)
          else let target = (if final_url \<noteq> [] then final_url else es_url ext)
               in case find (\<lambda>s. s_url s = target) (sites d) of
                    Some existing_site \<Rightarrow> link_and_delete ext (s_id existing_site) False d
                  | None \<Rightarrow>
                      if take 191 target \<in> set (map (\<lambda>s. take 191 (s_url s)) (sites d))
                      then ((False, False, False), delete_external_site (es_id ext) d)
                      else if length site_name > 255 \<or> length target > 500
                      then ((False, False, False),
                            mark_external_site_processed (es_id ext) 2 d)
                      else link_and_delete ext (next_id (map s_id (sites d))) True
                             (d\<lparr>sites := sites d @
                                  [\<lparr>s_id = next_id (map s_id (sites d)), s_name = site_name,
                                    s_url = target\<rparr>]\<rparr>))"

section \<open>The crawl of one site\<close>

text \<open>
  \<^verbatim>\<open>crawl_site_links\<close>. Three things are outside and are parameters: the page fetcher
  (markup and final URL, or nothing), and the two functions that read markup with
  BeautifulSoup, \<^verbatim>\<open>extract_links\<close> (a set of links) and \<^verbatim>\<open>find_friend_link_page_urls\<close>.
  The index of the sites is read under a lock; within one call it is the same at every
  read. The function handles the links of the homepage and of a friend-link page with the
  same code, here \<open>stage_links\<close>: a link that resolves to a site is staged as a friend
  link, any other link with a domain as an external site.
\<close>

definition truthy_id :: "site_id option \<Rightarrow> bool" where
  "truthy_id r = (case r of None \<Rightarrow> False | Some i \<Rightarrow> i \<noteq> 0)"

fun stage_links ::
  "(string \<rightharpoonup> site_id) \<Rightarrow> (string \<rightharpoonup> site_id) \<Rightarrow> site_id \<Rightarrow> string \<Rightarrow> string \<Rightarrow> string list
     \<Rightarrow> friend_link_data list \<times> external_site_data list
     \<Rightarrow> friend_link_data list \<times> external_site_data list" where
  "stage_links um bm sid lt page [] acc = acc"
| "stage_links um bm sid lt page (link_url # rest) (fl, es) =
     (let first_try = get_site_by_url link_url um bm;
          to_site_id = (if \<not> truthy_id first_try then get_site_by_url link_url um bm
                        else first_try)
      in case (if truthy_id to_site_id then to_site_id else None) of
           Some i \<Rightarrow> stage_links um bm sid lt page rest (fl @ [(sid, i, lt, page)], es)
         | None \<Rightarrow>
             (case extract_domain link_url of
                None \<Rightarrow> stage_links um bm sid lt page rest (fl, es)
              | Some dm \<Rightarrow>
                  if dm \<noteq> []
                  then stage_links um bm sid lt page rest
                         (fl, es @ [(link_url, dm, sid, page, lt)])
                  else stage_links um bm sid lt page rest (fl, es)))"

text \<open>
  The loop over \<^verbatim>\<open>friend_page_urls[:5]\<close>. The first component of the state is the list of
  the pages fetched so far.
\<close>

fun friend_page_loop ::
  "(string \<Rightarrow> (string \<times> string) option) \<Rightarrow> (string \<Rightarrow> string \<Rightarrow> string list)
     \<Rightarrow> (string \<rightharpoonup> site_id) \<Rightarrow> (string \<rightharpoonup> site_id) \<Rightarrow> site_id \<Rightarrow> string list
     \<Rightarrow> string list \<times> friend_link_data list \<times> external_site_data list
     \<Rightarrow> string list \<times> friend_link_data list \<times> external_site_data list" where
  "friend_page_loop fetch_page extract_links um bm sid [] st = st"
| "friend_page_loop fetch_page extract_links um bm sid (friend_page_url # rest) (fetched, fl, es) =
     (case fetch_page friend_page_url of
        None \<Rightarrow>
          friend_page_loop fetch_page extract_links um bm sid rest
            (fetched @ [friend_page_url], fl, es)
      | Some (friend_page_html, final_friend_url) \<Rightarrow>
          if friend_page_html = []
          then friend_page_loop fetch_page extract_links um bm sid rest
                 (fetched @ [friend_page_url], fl, es)
          else let page = (if final_friend_url \<noteq> [] then final_friend_url else friend_page_url);
                   friend_page_links = remdups (extract_links friend_page_html page)
               in case stage_links um bm sid ''friend_page'' page friend_page_links (fl, es) of
                    (fl', es') \<Rightarrow>
                      if length friend_page_links > 3
                      then (fetched @ [friend_page_url], fl', es')
                      else friend_page_loop fetch_page extract_links um bm sid rest
                             (fetched @ [friend_page_url], fl', es'))"

text \<open>
  The body of \<^verbatim>\<open>crawl_site_links\<close> up to the two batch saves is \<open>stage_site_links\<close>:
  it returns the pages probed and the two staged lists, which \<^verbatim>\<open>crawl_site_links\<close> then
  commits.
\<close>

definition stage_site_links ::
  "(string \<Rightarrow> (string \<times> string) option) \<Rightarrow> (string \<Rightarrow> string \<Rightarrow> string list)
     \<Rightarrow> (string \<Rightarrow> string \<Rightarrow> string list)
     \<Rightarrow> site \<Rightarrow> (string \<rightharpoonup> site_id) \<Rightarrow> (string \<rightharpoonup> site_id)
     \<Rightarrow> string list \<times> friend_link_data list \<times> external_site_data list" where
  "stage_site_links fetch_page extract_links find_friend_link_page_urls st um bm =
     (let homepage_html = (case fetch_page (s_url st) of None \<Rightarrow> [] | Some (h, f) \<Rightarrow> h);
          final_url = (case fetch_page (s_url st) of None \<Rightarrow> [] | Some (h, f) \<Rightarrow> f);
          page = (if final_url \<noteq> [] then final_url else s_url st);
          staged = (if homepage_html \<noteq> []
                    then stage_links um bm (s_id st) ''homepage'' page
                           (remdups (extract_links homepage_html page)) ([], [])
                    else ([], []));
          friend_page_urls = find_friend_link_page_urls homepage_html page
      in friend_page_loop fetch_page extract_links um bm (s_id st) (take 5 friend_page_urls)
           ([], fst staged, snd staged))"

definition crawl_site_links ::
  "(string \<Rightarrow> (string \<times> string) option) \<Rightarrow> (string \<Rightarrow> string \<Rightarrow> string list)
     \<Rightarrow> (string \<Rightarrow> string \<Rightarrow> string list)
     \<Rightarrow> site \<Rightarrow> (string \<rightharpoonup> site_id) \<Rightarrow> (string \<rightharpoonup> site_id) \<Rightarrow> db \<Rightarrow> (nat \<times> nat) \<times> db" where
  "crawl_site_links fetch_page extract_links find_friend_link_page_urls st um bm d =
     (case stage_site_links fetch_page extract_links find_friend_link_page_urls st um bm of
        (fetched, friend_links_data, external_sites_data) \<Rightarrow>
          (case batch_save_friend_links d friend_links_data of
             (friend_links_count, d1) \<Rightarrow>
               (case batch_save_external_sites d1 external_sites_data of
                  (external_sites_count, d2) \<Rightarrow>
                    ((friend_links_count, external_sites_count), d2))))"

section \<open>Helper definitions for the statements\<close>

text \<open>A link between two sites, stored in one direction or the other.\<close>

definition orient :: "bool \<Rightarrow> site_id \<times> site_id \<Rightarrow> site_id \<times> site_id" where
  "orient forwards e = (if forwards then e else (snd e, fst e))"

text \<open>The complete directed graph on the sites 1, 2 and 3.\<close>

definition k3_links :: "(site_id \<times> site_id) list" where
  "k3_links = [(1, 2), (1, 3), (2, 1), (2, 3), (3, 1), (3, 2)]"

text \<open>
  A store with two sites and four candidates: one resolved, three unclaimed.
\<close>

definition example_candidate :: "nat \<Rightarrow> string \<Rightarrow> int option \<Rightarrow> external_site" where
  "example_candidate i dm p =
     \<lparr>es_id = i, es_url = ''http://'' @ dm, es_domain = dm, discovered_from_site_id = 1,
      discovered_from_page = ''http://a.com'', es_link_type = ''homepage'', processed = p\<rparr>"

definition example_store :: db where
  "example_store =
     \<lparr>sites = [\<lparr>s_id = 1, s_name = ''A'', s_url = ''http://a.com''\<rparr>,
               \<lparr>s_id = 2, s_name = ''B'', s_url = ''http://b.com''\<rparr>],
      friend_links = [],
      external_sites = [example_candidate 1 ''c.com'' (Some 1),
                        example_candidate 2 ''d.com'' (Some 0),
                        example_candidate 3 ''e.com'' None,
                        example_candidate 4 ''f.com'' (Some 0)]\<rparr>"

text \<open>
  What one probe of a candidate friend-link page gives: nothing, or the URL of the page
  after redirects together with the set of links on it. A page is accepted when it gives
  more than three links.
\<close>

definition fetched_links ::
  "(string \<Rightarrow> (string \<times> string) option) \<Rightarrow> (string \<Rightarrow> string \<Rightarrow> string list) \<Rightarrow> string
     \<Rightarrow> (string \<times> string list) option" where
  "fetched_links fetch_page extract_links u =
     (case fetch_page u of
        None \<Rightarrow> None
      | Some (html, final) \<Rightarrow>
          if html = [] then None
          else Some (if final \<noteq> [] then final else u,
                     remdups (extract_links html (if final \<noteq> [] then final else u))))"

definition accepted_page ::
  "(string \<Rightarrow> (string \<times> string) option) \<Rightarrow> (string \<Rightarrow> string \<Rightarrow> string list) \<Rightarrow> string \<Rightarrow> bool" where
  "accepted_page fetch_page extract_links u =
     (case fetched_links fetch_page extract_links u of
        None \<Rightarrow> False
      | Some (page, links) \<Rightarrow> length links > 3)"

text \<open>
  The candidate friend-link pages of a site: what \<^verbatim>\<open>find_friend_link_page_urls\<close> returns
  for the fetched homepage.
\<close>

definition friend_page_candidates ::
  "(string \<Rightarrow> (string \<times> string) option) \<Rightarrow> (string \<Rightarrow> string \<Rightarrow> string list) \<Rightarrow> site
     \<Rightarrow> string list" where
  "friend_page_candidates fetch_page find_friend_link_page_urls st =
     (let homepage_html = (case fetch_page (s_url st) of None \<Rightarrow> [] | Some (h, f) \<Rightarrow> h);
          final_url = (case fetch_page (s_url st) of None \<Rightarrow> [] | Some (h, f) \<Rightarrow> f)
      in find_friend_link_page_urls homepage_html
           (if final_url \<noteq> [] then final_url else s_url st))"

text \<open>
  The links of a page are staged under \<^verbatim>\<open>friend_page\<close>: a link that resolves to a site
  as a friend link, a link that does not resolve and has a domain as an external site.
\<close>

definition links_staged ::
  "(string \<rightharpoonup> site_id) \<Rightarrow> (string \<rightharpoonup> site_id) \<Rightarrow> site_id
     \<Rightarrow> friend_link_data list \<Rightarrow> external_site_data list \<Rightarrow> string \<Rightarrow> string list \<Rightarrow> bool" where
  "links_staged um bm sid fl es page links \<longleftrightarrow>
     (\<forall>l\<in>set links.
        (\<forall>i. get_site_by_url l um bm = Some i \<and> i \<noteq> 0
              \<longrightarrow> (sid, i, ''friend_page'', page) \<in> set fl)
        \<and> (\<forall>dm. \<not> truthy_id (get_site_by_url l um bm) \<and> extract_domain l = Some dm \<and> dm \<noteq> []
               \<longrightarrow> (l, dm, sid, page, ''friend_page'') \<in> set es))"

text \<open>
  An example crawl: the homepage of site 1 has no outbound link and names six candidate
  pages; the first cannot be fetched, the second has four links.
\<close>

definition example_fetch_page :: "string \<Rightarrow> (string \<times> string) option" where
  "example_fetch_page u =
     (if u = ''http://a.com'' then Some (''home'', ''http://a.com'')
      else if u = ''http://a.com/friends'' then Some (''friends'', [])
      else None)"

definition example_extract_links :: "string \<Rightarrow> string \<Rightarrow> string list" where
  "example_extract_links html base =
     (if html = ''friends''
      then [''http://b.com'', ''http://c.org'', ''http://d.net/blog'', ''http://e.io'']
      else [])"

definition example_find_pages :: "string \<Rightarrow> string \<Rightarrow> string list" where
  "example_find_pages html base =
     [''http://a.com/links'', ''http://a.com/friends'', ''http://a.com/friend'',
      ''http://a.com/link'', ''http://a.com/friendship'', ''http://a.com/blogroll'']"





section \<open>Properties of the analytics\<close>

subsection \<open>Transitivity of the triangle with a pendant node\<close>

text \<open>
  C9. On the graph of four sites whose undirected projection has the edges A--B, B--C,
  C--A and A--D, whichever way each link is stored, \<^verbatim>\<open>calculate_transitivity\<close> returns
  one triangle, five connected triplets and the transitivity 3 * 1 / 5.
\<close>

theorem transitivity_triangle_with_pendant:
  assumes "distinct [a, b, c, d]"
  shows "calculate_transitivity
           (undirected_graph [orient p (a, b), orient q (b, c), orient r (c, a), orient s (a, d)])
         = \<lparr>transitivity = 3 / 5, triangles = 1, triplets = 5\<rparr>"
  using assms
  by (cases p; cases q; cases r; cases s;
      simp add: orient_def calculate_transitivity_def undirected_graph_def
                load_data_from_db_def load_link_def adj_def)

theorem transitivity_triangle_with_pendant_witness:
  "distinct [1, 2, 3, 4 :: site_id]
   \<and> calculate_transitivity (undirected_graph [(1, 2), (2, 3), (3, 1), (1, 4)])
       = \<lparr>transitivity = 3 / 5, triangles = 1, triplets = 5\<rparr>"
  using transitivity_triangle_with_pendant [of 1 2 3 4 True True True True]
  by (simp add: orient_def)

subsection \<open>The metrics on the empty graph\<close>

text \<open>
  Transitivity, assortativity and modularity guard their divisions and return 0 on the
  graph without links.
\<close>

lemma guarded_metrics_zero_on_empty_graph:
  "calculate_transitivity (undirected_graph (select_distinct_links []))
     = \<lparr>transitivity = 0, triangles = 0, triplets = 0\<rparr>"
  "calculate_degree_assortativity (undirected_graph (select_distinct_links [])) = 0"
  "calculate_modularity (undirected_graph (select_distinct_links []))
     = \<lparr>modularity = 0, community_count = 0\<rparr>"
  by (simp_all add: select_distinct_links_def undirected_graph_def load_data_from_db_def
        calculate_transitivity_def calculate_degree_assortativity_def
        calculate_modularity_def find_connected_components_def)

text \<open>
  C3. The clustering coefficients have no such guard. With no link in the table the
  graph has no node: \<^verbatim>\<open>np.mean\<close> of the empty list is \<^verbatim>\<open>nan\<close>, and
  \<^verbatim>\<open>np.average\<close> with weights that sum to zero raises \<^verbatim>\<open>ZeroDivisionError\<close>, so
  \<^verbatim>\<open>calculate_global_clustering_coefficient\<close> raises instead of returning zero values.
\<close>

theorem global_clustering_raises_on_empty_graph:
  "calculate_global_clustering_coefficient (undirected_graph (select_distinct_links []))
     = Inl ZeroDivisionError
   \<and> np_mean (map (calculate_local_clustering_coefficient
                     (undirected_graph (select_distinct_links [])))
                (map fst (undirected_graph (select_distinct_links [])))) = NaN"
  by (simp add: select_distinct_links_def undirected_graph_def load_data_from_db_def
        calculate_global_clustering_coefficient_def np_average_def np_mean_def)

subsection \<open>The reachable-pair ratio of a sample\<close>

lemma k3_bfs:
  "a \<in> {1, 2, 3} \<Longrightarrow>
   \<exists>ds. bfs_shortest_paths (directed_graph k3_links) a = Inr ds
        \<and> length (filter (\<lambda>(t, d). a \<noteq> t) ds) = 2"
  by (auto simp add: k3_links_def directed_graph_def load_data_from_db_def load_link_def
        bfs_shortest_paths_def adj_def)

text \<open>
  C2. In the complete directed graph on three sites every site reaches the two others.
  For a sample of two sites, whichever two the sampler draws, the loop adds
  \<^verbatim>\<open>len(sampled_ids) - 1\<close> = 1 to \<^verbatim>\<open>total_pairs\<close> per source and counts four reachable
  pairs, so the reported ratio is 4 / 2 = 2, while reachable pairs divided by
  sample size times (total nodes - 1) is 4 / (2 * 2) = 1.
\<close>

theorem sampled_ratio_divides_by_sample_pairs:
  assumes "choice [1, 2, 3] 2 = [a, b]" and "a \<in> {1, 2, 3}" and "b \<in> {1, 2, 3}"
  shows "\<exists>ds. calculate_all_pairs_shortest_paths choice (directed_graph k3_links)
                 [1, 2, 3] (Some 2) = Inr (ds, 2)
              \<and> real (length ds) / (2 * (3 - 1)) = 1"
proof -
  from k3_bfs [OF assms(2)] obtain da
    where da: "bfs_shortest_paths (directed_graph k3_links) a = Inr da"
              "length (filter (\<lambda>(t, d). a \<noteq> t) da) = 2" by blast
  from k3_bfs [OF assms(3)] obtain db
    where db: "bfs_shortest_paths (directed_graph k3_links) b = Inr db"
              "length (filter (\<lambda>(t, d). b \<noteq> t) db) = 2" by blast
  show ?thesis using assms(1) da db
    by (simp add: calculate_all_pairs_shortest_paths_def)
qed

theorem sampled_ratio_divides_by_sample_pairs_witness:
  "calculate_all_pairs_shortest_paths (\<lambda>ids n. take n ids) (directed_graph k3_links)
     [1, 2, 3] (Some 2) = Inr ([1, 1, 1, 1], 2)"
proof -
  have "\<exists>ds. calculate_all_pairs_shortest_paths (\<lambda>ids n. take n ids) (directed_graph k3_links)
               [1, 2, 3] (Some 2) = Inr (ds, 2)
             \<and> real (length ds) / (2 * (3 - 1)) = 1"
    by (rule sampled_ratio_divides_by_sample_pairs [of _ 1 2]) simp_all
  then obtain ds where
    r: "calculate_all_pairs_shortest_paths (\<lambda>ids n. take n ids) (directed_graph k3_links)
          [1, 2, 3] (Some 2) = Inr (ds, 2)" by blast
  have "calculate_all_pairs_shortest_paths (\<lambda>ids n. take n ids) (directed_graph k3_links)
          [1, 2, 3] (Some 2) = Inr ([1, 1, 1, 1], 2)"
    by (simp add: calculate_all_pairs_shortest_paths_def k3_links_def directed_graph_def
          load_data_from_db_def load_link_def bfs_shortest_paths_def adj_def)
  with r show ?thesis by simp
qed

subsection \<open>Mutual links in the undirected projection\<close>

lemma adj_append_adj:
  "adj (append_adj g k v) x = (if x = k then adj g x @ [v] else adj g x)"
  by (induction g k v rule: append_adj.induct) (auto simp: adj_def)

lemma undirected_graph_snoc:
  "undirected_graph (links @ [(p, q)])
     = append_adj (append_adj (undirected_graph links) p q) q p"
  by (simp add: undirected_graph_def load_data_from_db_def load_link_def split_beta)

lemma undirected_graph_Nil: "undirected_graph [] = []"
  by (simp add: undirected_graph_def load_data_from_db_def)

lemma adj_undirected_snoc:
  "adj (undirected_graph (links @ [(p, q)])) x
     = adj (undirected_graph links) x @ (if x = p then [q] else []) @ (if x = q then [p] else [])"
  by (simp add: undirected_graph_snoc adj_append_adj)

lemma adj_Nil: "adj [] x = []"
  by (simp add: adj_def)


lemma set_adj_undirected:
  "set (adj (undirected_graph links) a) = {b. (a, b) \<in> set links} \<union> {b. (b, a) \<in> set links}"
proof (induction links rule: rev_induct)
  case Nil
  then show ?case by (simp add: undirected_graph_Nil adj_Nil)
next
  case (snoc l links)
  obtain p q where l: "l = (p, q)" by (cases l)
  have "set (adj (undirected_graph (links @ [(p, q)])) a)
          = set (adj (undirected_graph links) a) \<union> (if a = p then {q} else {})
            \<union> (if a = q then {p} else {})"
    unfolding adj_undirected_snoc by (cases "a = p"; cases "a = q"; simp)
  also have "\<dots> = {b. (a, b) \<in> set (links @ [(p, q)])} \<union> {b. (b, a) \<in> set (links @ [(p, q)])}"
    unfolding snoc.IH by auto
  finally show ?case by (simp only: l)
qed















subsubsection \<open>The neighbours the local clustering coefficient counts\<close>




subsubsection \<open>The sums of the transitivity\<close>



subsubsection \<open>The weights of the weighted clustering\<close>






subsubsection \<open>The samples of the assortativity\<close>








subsubsection \<open>The edges and degrees of the modularity\<close>











section \<open>Properties of the work claim queue\<close>

lemma es_id_truncate [simp]: "es_id (candidate.truncate r) = es_id r"
  by (simp add: candidate.truncate_def)

lemma es_id_update_processed [simp]: "es_id (r\<lparr>processed := p\<rparr>) = es_id r"
  by simp

lemma ids_update_claimed [simp]: "map es_id (update_claimed ids rows) = map es_id rows"
  by (simp add: update_claimed_def)

lemma set_select_unclaimed_ids:
  "set (select_unclaimed_ids n rows) \<subseteq> es_id ` {r \<in> set rows. unclaimed r}"
  by (auto simp: select_unclaimed_ids_def dest!: in_set_takeD)

lemma distinct_select_unclaimed_ids:
  "distinct (map es_id rows) \<Longrightarrow> distinct (select_unclaimed_ids n rows)"
  by (simp add: select_unclaimed_ids_def distinct_map_filter)

lemma length_select_unclaimed_ids:
  "length (select_unclaimed_ids n rows) = min n (length (filter unclaimed rows))"
  by (simp add: select_unclaimed_ids_def min.commute)

lemma select_unclaimed_ids_smallest:
  assumes "distinct (map es_id rows)"
    and "i \<in> set (select_unclaimed_ids n rows)"
    and "r \<in> set rows" and "unclaimed r" and "es_id r \<notin> set (select_unclaimed_ids n rows)"
  shows "i < es_id r"
proof -
  let ?xs = "sort (map es_id (filter unclaimed rows))"
  have s: "sorted (take n ?xs @ drop n ?xs)" by simp
  have dist: "distinct ?xs" using assms(1) by (simp add: distinct_map_filter)
  have "es_id r \<in> set ?xs" using assms(3,4) by auto
  with assms(5) have in_drop: "es_id r \<in> set (drop n ?xs)"
    by (metis Un_iff append_take_drop_id select_unclaimed_ids_def set_append)
  from assms(2) have in_take: "i \<in> set (take n ?xs)"
    by (simp add: select_unclaimed_ids_def)
  from s in_take in_drop have "i \<le> es_id r"
    unfolding sorted_append by blast
  moreover have "i \<noteq> es_id r"
    using in_take assms(5) by (auto simp: select_unclaimed_ids_def)
  ultimately show ?thesis by simp
qed

lemma claimed_rows:
  assumes "distinct (map es_id rows)"
    and "set ids \<subseteq> es_id ` {r \<in> set rows. unclaimed r}"
  shows "filter (\<lambda>r. es_id r \<in> set ids \<and> processed r = Some 3) (update_claimed ids rows)
           = map (\<lambda>r. r\<lparr>processed := Some 3\<rparr>) (filter (\<lambda>r. es_id r \<in> set ids) rows)"
proof -
  have u: "\<And>r. r \<in> set rows \<Longrightarrow> es_id r \<in> set ids \<Longrightarrow> unclaimed r"
  proof -
    fix r assume r: "r \<in> set rows" "es_id r \<in> set ids"
    with assms(2) obtain r' where r': "r' \<in> set rows" "unclaimed r'" "es_id r' = es_id r" by force
    from assms(1) r(1) r'(1,3) have "r' = r"
      by (meson distinct_map inj_onD)
    with r'(2) show "unclaimed r" by simp
  qed
  have "\<And>rs. set rs \<subseteq> set rows \<Longrightarrow>
          filter (\<lambda>r. es_id r \<in> set ids \<and> processed r = Some 3) (update_claimed ids rs)
            = map (\<lambda>r. r\<lparr>processed := Some 3\<rparr>) (filter (\<lambda>r. es_id r \<in> set ids) rs)"
  proof -
    fix rs show "set rs \<subseteq> set rows \<Longrightarrow>
          filter (\<lambda>r. es_id r \<in> set ids \<and> processed r = Some 3) (update_claimed ids rs)
            = map (\<lambda>r. r\<lparr>processed := Some 3\<rparr>) (filter (\<lambda>r. es_id r \<in> set ids) rs)"
    proof (induction rs)
      case Nil
      then show ?case by (simp add: update_claimed_def)
    next
      case (Cons r rs)
      then have IH: "filter (\<lambda>r. es_id r \<in> set ids \<and> processed r = Some 3) (update_claimed ids rs)
            = map (\<lambda>r. r\<lparr>processed := Some 3\<rparr>) (filter (\<lambda>r. es_id r \<in> set ids) rs)"
        and r: "r \<in> set rows" by simp_all
      show ?case
      proof (cases "es_id r \<in> set ids")
        case True
        with u [OF r] have "unclaimed r" by simp
        with True IH show ?thesis
          by (simp add: update_claimed_def)
      next
        case False
        with IH show ?thesis
          by (simp add: update_claimed_def)
      qed
    qed
  qed
  then show ?thesis by simp
qed

lemma length_filter_mem:
  assumes "distinct xs" and "distinct ys" and "set ys \<subseteq> set xs"
  shows "length (filter (\<lambda>i. i \<in> set ys) xs) = length ys"
proof -
  have "distinct (filter (\<lambda>i. i \<in> set ys) xs)" using assms(1) by simp
  then have "length (filter (\<lambda>i. i \<in> set ys) xs) = card (set (filter (\<lambda>i. i \<in> set ys) xs))"
    by (rule distinct_card [symmetric])
  also have "set (filter (\<lambda>i. i \<in> set ys) xs) = set ys" using assms(3) by auto
  also have "card (set ys) = length ys" using assms(2) by (rule distinct_card)
  finally show ?thesis .
qed

text \<open>
  C1. One call of the batch pull on a table with distinct ids: the ids of the rows it
  returns are exactly the ids of the rows that were unclaimed before the call and are
  claimed (3) after it; it returns min(N, number of unclaimed rows) rows, so at most N;
  every returned id is smaller than the id of every unclaimed row left behind (the rows
  are taken in id order); every returned row is a row that was unclaimed, in the columns
  of the last SELECT; and a row it does not return is in the table as it was.
\<close>

theorem claimed_batch:
  assumes pk: "distinct (map es_id (external_sites d))"
    and call: "get_unprocessed_external_sites limit d = (batch, d')"
  shows "set (map es_id batch)
           = {i. \<exists>r\<in>set (external_sites d). es_id r = i \<and> unclaimed r
                  \<and> (\<exists>r'\<in>set (external_sites d'). es_id r' = i \<and> processed r' = Some 3)}
         \<and> length batch = min (nat limit) (length (filter unclaimed (external_sites d)))
         \<and> (\<forall>c\<in>set batch. \<forall>r\<in>set (external_sites d).
               unclaimed r \<and> es_id r \<notin> set (map es_id batch) \<longrightarrow> es_id c < es_id r)
         \<and> (\<forall>c\<in>set batch. \<exists>r\<in>set (external_sites d).
               unclaimed r \<and> c = candidate.truncate r)
         \<and> (\<forall>r'\<in>set (external_sites d').
               es_id r' \<notin> set (map es_id batch) \<longrightarrow> r' \<in> set (external_sites d))"
proof -
  let ?rows = "external_sites d"
  let ?ids = "select_unclaimed_ids (nat limit) ?rows"
  have same: "\<And>r r'. r \<in> set ?rows \<Longrightarrow> r' \<in> set ?rows \<Longrightarrow> es_id r' = es_id r \<Longrightarrow> r' = r"
    using pk by (meson distinct_map inj_onD)
  show ?thesis
  proof (cases "limit < 0 \<or> ?ids = []")
    case True
    with call have b: "batch = []" and d': "d' = d"
      by (auto simp: get_unprocessed_external_sites_def Let_def split: if_splits)
    have none: "\<not> (\<exists>r\<in>set ?rows. unclaimed r \<and> (\<exists>r'\<in>set ?rows. es_id r' = es_id r \<and> processed r' = Some 3))"
    proof
      assume "\<exists>r\<in>set ?rows. unclaimed r \<and> (\<exists>r'\<in>set ?rows. es_id r' = es_id r \<and> processed r' = Some 3)"
      then obtain r r' where "r \<in> set ?rows" "unclaimed r" "r' \<in> set ?rows" "es_id r' = es_id r"
        "processed r' = Some 3" by blast
      with same [of r r'] show False by (auto simp: unclaimed_def)
    qed
    have len: "min (nat limit) (length (filter unclaimed ?rows)) = 0"
      using True length_select_unclaimed_ids [of "nat limit" ?rows] by auto
    from none len show ?thesis
      unfolding b d' by auto
  next
    case False
    then have lim: "\<not> limit < 0" and ne: "?ids \<noteq> []" by simp_all
    let ?rows' = "update_claimed ?ids ?rows"
    from call lim ne have b: "batch = select_claimed ?ids ?rows'"
      and d': "external_sites d' = ?rows'"
      by (auto simp: get_unprocessed_external_sites_def Let_def)
    have sub: "set ?ids \<subseteq> es_id ` {r \<in> set ?rows. unclaimed r}"
      by (rule set_select_unclaimed_ids)
    have dist: "distinct ?ids"
      by (rule distinct_select_unclaimed_ids [OF pk])
    have b2: "batch = map candidate.truncate
                        (map (\<lambda>r. r\<lparr>processed := Some 3\<rparr>) (filter (\<lambda>r. es_id r \<in> set ?ids) ?rows))"
      unfolding b select_claimed_def claimed_rows [OF pk sub] by (rule refl)
    have ids_batch: "map es_id batch = filter (\<lambda>i. i \<in> set ?ids) (map es_id ?rows)"
      unfolding b2 by (simp add: filter_map comp_def)
    have set_batch: "set (map es_id batch) = set ?ids"
      unfolding ids_batch using sub by auto
    have unclaimed_of: "\<And>r. r \<in> set ?rows \<Longrightarrow> es_id r \<in> set ?ids \<Longrightarrow> unclaimed r"
    proof -
      fix r assume r: "r \<in> set ?rows" "es_id r \<in> set ?ids"
      with sub obtain r0 where "r0 \<in> set ?rows" "unclaimed r0" "es_id r0 = es_id r" by force
      with same [of r r0] r(1) show "unclaimed r" by auto
    qed
    have c1: "set (map es_id batch)
           = {i. \<exists>r\<in>set ?rows. es_id r = i \<and> unclaimed r
                  \<and> (\<exists>r'\<in>set (external_sites d'). es_id r' = i \<and> processed r' = Some 3)}"
      (is "_ = ?T")
    proof (rule set_eqI, rule iffI)
      fix i assume "i \<in> set (map es_id batch)"
      then have i: "i \<in> set ?ids" by (metis set_batch)
      with sub obtain r where r: "r \<in> set ?rows" "unclaimed r" "es_id r = i" by force
      then have in': "r\<lparr>processed := Some 3\<rparr> \<in> set ?rows'"
        using i by (force simp: update_claimed_def)
      have "\<exists>r'\<in>set ?rows'. es_id r' = i \<and> processed r' = Some 3"
        by (rule bexI [OF _ in']) (simp add: r(3))
      with r have "\<exists>r\<in>set ?rows. es_id r = i \<and> unclaimed r
                     \<and> (\<exists>r'\<in>set ?rows'. es_id r' = i \<and> processed r' = Some 3)"
        by blast
      then show "i \<in> ?T" unfolding d' by (rule CollectI)
    next
      fix i assume "i \<in> ?T"
      then obtain r r' where r: "r \<in> set ?rows" "es_id r = i" "unclaimed r"
        and r': "r' \<in> set ?rows'" "es_id r' = i" "processed r' = Some 3"
        unfolding d' by blast
      from r'(1) obtain r0 where r0: "r0 \<in> set ?rows"
        and r'0: "r' = (if es_id r0 \<in> set ?ids \<and> unclaimed r0 then r0\<lparr>processed := Some 3\<rparr> else r0)"
        by (auto simp: update_claimed_def)
      show "i \<in> set (map es_id batch)"
      proof (rule ccontr)
        assume "i \<notin> set (map es_id batch)"
        then have ni: "i \<notin> set ?ids" by (metis set_batch)
        from r'0 r'(2) have "es_id r0 = i" by (simp split: if_splits)
        with ni r'0 have "r' = r0" by simp
        with r0 r r'(2) same [of r r'] have "r' = r" by simp
        with r(3) r'(3) show False by (simp add: unclaimed_def)
      qed
    qed
    have c2: "length batch = min (nat limit) (length (filter unclaimed ?rows))"
    proof -
      have "length batch = length (map es_id batch)" by simp
      also have "\<dots> = length ?ids"
        unfolding ids_batch
        by (rule length_filter_mem [OF pk dist]) (use sub in auto)
      finally show ?thesis by (simp only: length_select_unclaimed_ids)
    qed
    have c3: "\<forall>c\<in>set batch. \<forall>r\<in>set ?rows.
               unclaimed r \<and> es_id r \<notin> set (map es_id batch) \<longrightarrow> es_id c < es_id r"
    proof (intro ballI impI)
      fix c r assume c: "c \<in> set batch" and r: "r \<in> set ?rows"
        and h: "unclaimed r \<and> es_id r \<notin> set (map es_id batch)"
      from c have "es_id c \<in> set (map es_id batch)" by simp
      then have "es_id c \<in> set ?ids" by (metis set_batch)
      moreover from h have "es_id r \<notin> set ?ids" by (metis set_batch)
      ultimately show "es_id c < es_id r"
        using select_unclaimed_ids_smallest [OF pk _ r] h by blast
    qed
    have c4: "\<forall>c\<in>set batch. \<exists>r\<in>set ?rows. unclaimed r \<and> c = candidate.truncate r"
    proof
      fix c assume "c \<in> set batch"
      then obtain r where r: "r \<in> set ?rows" "es_id r \<in> set ?ids"
        and c: "c = candidate.truncate (r\<lparr>processed := Some 3\<rparr>)"
        unfolding b2 by auto
      have "candidate.truncate (r\<lparr>processed := Some 3\<rparr>) = candidate.truncate r"
        by (simp add: candidate.truncate_def)
      with c unclaimed_of [OF r] r(1) show "\<exists>r\<in>set ?rows. unclaimed r \<and> c = candidate.truncate r"
        by auto
    qed
    have c5: "\<forall>r'\<in>set (external_sites d').
               es_id r' \<notin> set (map es_id batch) \<longrightarrow> r' \<in> set ?rows"
      unfolding d' set_batch by (auto simp: update_claimed_def split: if_splits)
    from c1 c2 c3 c4 c5 show ?thesis by blast
  qed
qed

theorem claimed_batch_witness:
  "distinct (map es_id (external_sites example_store))
   \<and> map es_id (fst (get_unprocessed_external_sites 2 example_store)) = [2, 3]
   \<and> length (fst (get_unprocessed_external_sites 2 example_store)) = 2"
proof -
  have pk: "distinct (map es_id (external_sites example_store))"
    by (simp add: example_store_def example_candidate_def)
  obtain batch d' where call: "get_unprocessed_external_sites 2 example_store = (batch, d')"
    by (cases "get_unprocessed_external_sites 2 example_store")
  from claimed_batch [OF pk call]
  have "length batch = min (nat 2) (length (filter unclaimed (external_sites example_store)))"
    by blast
  then have len: "length batch = 2"
    by (simp add: example_store_def example_candidate_def unclaimed_def)
  have "map es_id (fst (get_unprocessed_external_sites 2 example_store)) = [2, 3]"
    by code_simp
  with pk len call show ?thesis by simp
qed

section \<open>Properties of the graph store\<close>

lemma insert_friend_link_present:
  "data_key x \<in> set (map unique_friend_link rows) \<Longrightarrow> insert_friend_link rows x = (rows, 0)"
  by (simp add: insert_friend_link_def)

lemma keys_insert_friend_link:
  "set (map unique_friend_link (fst (insert_friend_link rows x)))
     = insert (data_key x) (set (map unique_friend_link rows))"
  by (cases x) (auto simp: insert_friend_link_def data_key_def unique_friend_link_def)

lemma executemany_present:
  "data_key ` set data \<subseteq> set (map unique_friend_link rows) \<Longrightarrow>
   executemany data (rows, n) = (rows, n)"
  by (induction data arbitrary: n) (simp_all add: insert_friend_link_present)

lemma keys_executemany:
  "set (map unique_friend_link (fst (executemany data (rows, n))))
     = data_key ` set data \<union> set (map unique_friend_link rows)"
proof (induction data arbitrary: rows n)
  case Nil
  then show ?case by simp
next
  case (Cons x data)
  obtain rows' k where i: "insert_friend_link rows x = (rows', k)"
    by (cases "insert_friend_link rows x")
  from keys_insert_friend_link [of rows x] i
  have "set (map unique_friend_link rows') = insert (data_key x) (set (map unique_friend_link rows))"
    by simp
  with Cons.IH [of rows' "n + k"] i show ?case by auto
qed

lemma one_by_one_present:
  "data_key ` {x \<in> set data. friend_link_accepted d x} \<subseteq> set (map unique_friend_link rows) \<Longrightarrow>
   fst (insert_one_by_one d data (rows, n)) = rows"
proof (induction data arbitrary: n)
  case Nil
  then show ?case by simp
next
  case (Cons x data)
  from Cons.prems
  have rest: "data_key ` {x \<in> set data. friend_link_accepted d x}
                \<subseteq> set (map unique_friend_link rows)" by auto
  show ?case
  proof (cases "friend_link_accepted d x")
    case True
    with Cons.prems have "data_key x \<in> set (map unique_friend_link rows)" by auto
    then have "insert_friend_link rows x = (rows, 0)" by (rule insert_friend_link_present)
    with True Cons.IH [OF rest, of "n + 1"] show ?thesis by simp
  next
    case False
    with Cons.IH [OF rest, of n] show ?thesis by simp
  qed
qed

lemma one_by_one_cong:
  "friend_link_accepted d' = friend_link_accepted d \<Longrightarrow>
   insert_one_by_one d' data acc = insert_one_by_one d data acc"
  by (induction d data acc rule: insert_one_by_one.induct) simp_all

lemma keys_one_by_one:
  "set (map unique_friend_link (fst (insert_one_by_one d data (rows, n))))
     = data_key ` {x \<in> set data. friend_link_accepted d x} \<union> set (map unique_friend_link rows)"
proof (induction data arbitrary: rows n)
  case Nil
  then show ?case by simp
next
  case (Cons x data)
  show ?case
  proof (cases "friend_link_accepted d x")
    case True
    with Cons.IH [of "fst (insert_friend_link rows x)" "n + 1"]
      keys_insert_friend_link [of rows x]
    show ?thesis by auto
  next
    case False
    with Cons.IH [of rows n] show ?thesis by auto
  qed
qed

lemma accepted_friend_links_update [simp]:
  "friend_link_accepted (d\<lparr>friend_links := rows\<rparr>) = friend_link_accepted d"
  by (rule ext) (simp add: friend_link_accepted_def)

lemma batch_save_rows:
  "friend_links (snd (batch_save_friend_links d data))
     = (if data = [] then friend_links d
        else if list_all (friend_link_accepted d) data
        then fst (executemany data (friend_links d, 0))
        else fst (insert_one_by_one d data (friend_links d, 0)))"
  by (simp add: batch_save_friend_links_def split_beta)

lemma batch_save_other:
  "snd (batch_save_friend_links d data)
     = d\<lparr>friend_links := friend_links (snd (batch_save_friend_links d data))\<rparr>"
  by (simp add: batch_save_friend_links_def split_beta)

lemma batch_save_present:
  assumes "data_key ` set data \<subseteq> set (map unique_friend_link (friend_links d))"
  shows "snd (batch_save_friend_links d data) = d"
proof -
  have "data_key ` {x \<in> set data. friend_link_accepted d x}
          \<subseteq> set (map unique_friend_link (friend_links d))"
    using assms by auto
  then have "friend_links (snd (batch_save_friend_links d data)) = friend_links d"
    unfolding batch_save_rows
    using executemany_present [OF assms, of 0] one_by_one_present [of data d "friend_links d" 0]
    by simp
  with batch_save_other [of d data] show ?thesis by simp
qed

text \<open>
  C4. A batch whose keys (from_site_id, to_site_id, first 100 characters of page_url) are
  all in the table leaves the store as it is, and committing any batch a second time
  leaves the store, and so the number of rows of \<^verbatim>\<open>friend_links\<close>, as the first commit
  left it.
\<close>

theorem batch_save_twice:
  "(data_key ` set data \<subseteq> set (map unique_friend_link (friend_links d))
      \<longrightarrow> snd (batch_save_friend_links d data) = d)
   \<and> snd (batch_save_friend_links (snd (batch_save_friend_links d data)) data)
       = snd (batch_save_friend_links d data)
   \<and> length (friend_links (snd (batch_save_friend_links (snd (batch_save_friend_links d data)) data)))
       = length (friend_links (snd (batch_save_friend_links d data)))"
proof -
  let ?d1 = "snd (batch_save_friend_links d data)"
  have acc: "friend_link_accepted ?d1 = friend_link_accepted d"
    by (subst batch_save_other) simp
  have twice: "snd (batch_save_friend_links ?d1 data) = ?d1"
  proof (cases "data = []")
    case True
    then show ?thesis by (simp add: batch_save_friend_links_def)
  next
    case False
    show ?thesis
    proof (cases "list_all (friend_link_accepted d) data")
      case True
      with False have "set (map unique_friend_link (friend_links ?d1))
                         = data_key ` set data \<union> set (map unique_friend_link (friend_links d))"
        unfolding batch_save_rows by (simp only: keys_executemany if_False if_True)
      then have "data_key ` set data \<subseteq> set (map unique_friend_link (friend_links ?d1))" by blast
      then show ?thesis by (rule batch_save_present)
    next
      case nall: False
      with False have k: "set (map unique_friend_link (friend_links ?d1))
                         = data_key ` {x \<in> set data. friend_link_accepted d x}
                           \<union> set (map unique_friend_link (friend_links d))"
        unfolding batch_save_rows by (simp only: keys_one_by_one if_False)
      have "friend_links (snd (batch_save_friend_links ?d1 data)) = friend_links ?d1"
        unfolding batch_save_rows [of ?d1] acc one_by_one_cong [OF acc]
        using False nall one_by_one_present [of data d "friend_links ?d1" 0] k
        by simp
      with batch_save_other [of ?d1 data] show ?thesis by simp
    qed
  qed
  from twice batch_save_present show ?thesis by simp
qed

theorem batch_save_twice_witness:
  "length (friend_links (snd (batch_save_friend_links example_store
             [(1, 2, ''homepage'', ''http://a.com''), (1, 2, ''friend_page'', ''http://a.com'')])))
     = 1
   \<and> snd (batch_save_friend_links
            (snd (batch_save_friend_links example_store
                    [(1, 2, ''homepage'', ''http://a.com''), (1, 2, ''friend_page'', ''http://a.com'')]))
            [(1, 2, ''homepage'', ''http://a.com''), (1, 2, ''friend_page'', ''http://a.com'')])
       = snd (batch_save_friend_links example_store
                [(1, 2, ''homepage'', ''http://a.com''), (1, 2, ''friend_page'', ''http://a.com'')])"
proof -
  have "length (friend_links (snd (batch_save_friend_links example_store
             [(1, 2, ''homepage'', ''http://a.com''), (1, 2, ''friend_page'', ''http://a.com'')])))
     = 1"
    by code_simp
  with batch_save_twice [of "[(1, 2, ''homepage'', ''http://a.com''),
                              (1, 2, ''friend_page'', ''http://a.com'')]" example_store]
  show ?thesis by blast
qed

section \<open>Properties of the crawl\<close>

subsection \<open>Probing the friend-link pages\<close>

lemma stage_links_grows:
  "\<exists>fl1 es1. stage_links um bm sid lt page links (fl, es) = (fl @ fl1, es @ es1)
     \<and> (\<forall>x\<in>set fl1. \<exists>i. x = (sid, i, lt, page))
     \<and> (\<forall>y\<in>set es1. \<exists>l dm. y = (l, dm, sid, page, lt))
     \<and> (\<forall>l\<in>set links.
           (\<forall>i. get_site_by_url l um bm = Some i \<and> i \<noteq> 0 \<longrightarrow> (sid, i, lt, page) \<in> set fl1)
           \<and> (\<forall>dm. \<not> truthy_id (get_site_by_url l um bm) \<and> extract_domain l = Some dm \<and> dm \<noteq> []
                  \<longrightarrow> (l, dm, sid, page, lt) \<in> set es1))"
proof (induction links arbitrary: fl es)
  case Nil
  show ?case by (intro exI [of _ "[]"]) simp
next
  case (Cons l links)
  show ?case
  proof (cases "truthy_id (get_site_by_url l um bm)")
    case True
    then obtain i where i: "get_site_by_url l um bm = Some i" "i \<noteq> 0"
      by (auto simp: truthy_id_def split: option.splits)
    from Cons.IH [of "fl @ [(sid, i, lt, page)]" es] obtain fl1 es1 where
      r: "stage_links um bm sid lt page links (fl @ [(sid, i, lt, page)], es)
            = ((fl @ [(sid, i, lt, page)]) @ fl1, es @ es1)"
      and p1: "\<forall>x\<in>set fl1. \<exists>i. x = (sid, i, lt, page)"
      and p2: "\<forall>y\<in>set es1. \<exists>l dm. y = (l, dm, sid, page, lt)"
      and p3: "\<forall>l\<in>set links.
           (\<forall>i. get_site_by_url l um bm = Some i \<and> i \<noteq> 0 \<longrightarrow> (sid, i, lt, page) \<in> set fl1)
           \<and> (\<forall>dm. \<not> truthy_id (get_site_by_url l um bm) \<and> extract_domain l = Some dm \<and> dm \<noteq> []
                  \<longrightarrow> (l, dm, sid, page, lt) \<in> set es1)"
      by blast
    have step: "stage_links um bm sid lt page (l # links) (fl, es)
                  = (fl @ ((sid, i, lt, page) # fl1), es @ es1)"
      using True i r by (simp add: Let_def)
    show ?thesis
      apply (rule exI [of _ "(sid, i, lt, page) # fl1"], rule exI [of _ es1])
      using step p1 p2 p3 i True by auto
  next
    case False
    show ?thesis
    proof (cases "\<exists>dm. extract_domain l = Some dm \<and> dm \<noteq> []")
      case True
      then obtain dm where dm: "extract_domain l = Some dm" "dm \<noteq> []" by blast
      from Cons.IH [of fl "es @ [(l, dm, sid, page, lt)]"] obtain fl1 es1 where
        r: "stage_links um bm sid lt page links (fl, es @ [(l, dm, sid, page, lt)])
              = (fl @ fl1, (es @ [(l, dm, sid, page, lt)]) @ es1)"
        and p1: "\<forall>x\<in>set fl1. \<exists>i. x = (sid, i, lt, page)"
        and p2: "\<forall>y\<in>set es1. \<exists>l dm. y = (l, dm, sid, page, lt)"
        and p3: "\<forall>l\<in>set links.
           (\<forall>i. get_site_by_url l um bm = Some i \<and> i \<noteq> 0 \<longrightarrow> (sid, i, lt, page) \<in> set fl1)
           \<and> (\<forall>dm. \<not> truthy_id (get_site_by_url l um bm) \<and> extract_domain l = Some dm \<and> dm \<noteq> []
                  \<longrightarrow> (l, dm, sid, page, lt) \<in> set es1)"
        by blast
      have step: "stage_links um bm sid lt page (l # links) (fl, es)
                    = (fl @ fl1, es @ ((l, dm, sid, page, lt) # es1))"
        using False dm r by (simp add: Let_def)
      have nt: "\<And>i. get_site_by_url l um bm = Some i \<Longrightarrow> i = 0"
        using False by (auto simp: truthy_id_def)
      show ?thesis
        apply (rule exI [of _ fl1], rule exI [of _ "(l, dm, sid, page, lt) # es1"])
        using step p1 p2 p3 dm False nt by auto
    next
      case nodom: False
      from Cons.IH [of fl es] obtain fl1 es1 where
        r: "stage_links um bm sid lt page links (fl, es) = (fl @ fl1, es @ es1)"
        and p1: "\<forall>x\<in>set fl1. \<exists>i. x = (sid, i, lt, page)"
        and p2: "\<forall>y\<in>set es1. \<exists>l dm. y = (l, dm, sid, page, lt)"
        and p3: "\<forall>l\<in>set links.
           (\<forall>i. get_site_by_url l um bm = Some i \<and> i \<noteq> 0 \<longrightarrow> (sid, i, lt, page) \<in> set fl1)
           \<and> (\<forall>dm. \<not> truthy_id (get_site_by_url l um bm) \<and> extract_domain l = Some dm \<and> dm \<noteq> []
                  \<longrightarrow> (l, dm, sid, page, lt) \<in> set es1)"
        by blast
      have step: "stage_links um bm sid lt page (l # links) (fl, es) = (fl @ fl1, es @ es1)"
        using False nodom r by (cases "extract_domain l") (auto simp: Let_def)
      have nt: "\<And>i. get_site_by_url l um bm = Some i \<Longrightarrow> i = 0"
        using False by (auto simp: truthy_id_def)
      show ?thesis
        apply (rule exI [of _ fl1], rule exI [of _ es1])
        using step p1 p2 p3 False nodom nt by auto
    qed
  qed
qed

lemma friend_page_loop_Cons:
  "friend_page_loop f e um bm sid (u # rest) (fetched, fl, es) =
     (case fetched_links f e u of
        None \<Rightarrow> friend_page_loop f e um bm sid rest (fetched @ [u], fl, es)
      | Some (page, links) \<Rightarrow>
          (case stage_links um bm sid ''friend_page'' page links (fl, es) of
             (fl', es') \<Rightarrow>
               if length links > 3 then (fetched @ [u], fl', es')
               else friend_page_loop f e um bm sid rest (fetched @ [u], fl', es')))"
  by (auto simp: fetched_links_def Let_def split: option.splits)

lemma links_staged_mono:
  "links_staged um bm sid fl es page links \<Longrightarrow> set fl \<subseteq> set fl' \<Longrightarrow> set es \<subseteq> set es' \<Longrightarrow>
   links_staged um bm sid fl' es' page links"
  unfolding links_staged_def by blast

lemma friend_page_loop_trace:
  "\<exists>probed fl1 es1.
     friend_page_loop f e um bm sid urls (fetched0, fl0, es0)
       = (fetched0 @ probed, fl0 @ fl1, es0 @ es1)
     \<and> prefix probed urls
     \<and> (\<forall>p\<in>set (butlast probed). \<not> accepted_page f e p)
     \<and> (probed \<noteq> urls \<longrightarrow> probed \<noteq> [] \<and> accepted_page f e (last probed))
     \<and> (\<forall>x\<in>set fl1. \<exists>i pg. x = (sid, i, ''friend_page'', pg))
     \<and> (\<forall>y\<in>set es1. \<exists>l dm pg. y = (l, dm, sid, pg, ''friend_page''))
     \<and> (\<forall>p\<in>set probed. \<forall>page links.
           fetched_links f e p = Some (page, links) \<longrightarrow> links_staged um bm sid fl1 es1 page links)"
proof (induction urls arbitrary: fetched0 fl0 es0)
  case Nil
  show ?case
    by (rule exI [of _ "[]"], rule exI [of _ "[]"], rule exI [of _ "[]"]) simp
next
  case (Cons u urls)
  show ?case
  proof (cases "fetched_links f e u")
    case None
    then have na: "\<not> accepted_page f e u" by (simp add: accepted_page_def)
    from Cons.IH [of "fetched0 @ [u]" fl0 es0] obtain probed fl1 es1 where
      r: "friend_page_loop f e um bm sid urls (fetched0 @ [u], fl0, es0)
            = ((fetched0 @ [u]) @ probed, fl0 @ fl1, es0 @ es1)"
      and pre: "prefix probed urls"
      and nb: "\<forall>p\<in>set (butlast probed). \<not> accepted_page f e p"
      and stop: "probed \<noteq> urls \<longrightarrow> probed \<noteq> [] \<and> accepted_page f e (last probed)"
      and t1: "\<forall>x\<in>set fl1. \<exists>i pg. x = (sid, i, ''friend_page'', pg)"
      and t2: "\<forall>y\<in>set es1. \<exists>l dm pg. y = (l, dm, sid, pg, ''friend_page'')"
      and cov: "\<forall>p\<in>set probed. \<forall>page links.
           fetched_links f e p = Some (page, links) \<longrightarrow> links_staged um bm sid fl1 es1 page links"
      by blast
    have step: "friend_page_loop f e um bm sid (u # urls) (fetched0, fl0, es0)
                  = (fetched0 @ (u # probed), fl0 @ fl1, es0 @ es1)"
      unfolding friend_page_loop_Cons using None r by simp
    have nb': "\<forall>p\<in>set (butlast (u # probed)). \<not> accepted_page f e p"
      using nb na by (cases probed) auto
    have stop': "u # probed \<noteq> u # urls \<longrightarrow> u # probed \<noteq> [] \<and> accepted_page f e (last (u # probed))"
      using stop by auto
    have cov': "\<forall>p\<in>set (u # probed). \<forall>page links.
           fetched_links f e p = Some (page, links) \<longrightarrow> links_staged um bm sid fl1 es1 page links"
      using cov None by auto
    show ?thesis
      apply (rule exI [of _ "u # probed"], rule exI [of _ fl1], rule exI [of _ es1])
      using step pre nb' stop' t1 t2 cov' by simp
  next
    case (Some pl)
    obtain page links where pl: "pl = (page, links)" by (cases pl)
    from stage_links_grows [of um bm sid "''friend_page''" page links fl0 es0]
    obtain a b where
      st: "stage_links um bm sid ''friend_page'' page links (fl0, es0) = (fl0 @ a, es0 @ b)"
      and a1: "\<forall>x\<in>set a. \<exists>i. x = (sid, i, ''friend_page'', page)"
      and b1: "\<forall>y\<in>set b. \<exists>l dm. y = (l, dm, sid, page, ''friend_page'')"
      and c1: "links_staged um bm sid a b page links"
      unfolding links_staged_def by blast
    show ?thesis
    proof (cases "length links > 3")
      case True
      then have acc: "accepted_page f e u" using Some pl by (simp add: accepted_page_def)
      have step: "friend_page_loop f e um bm sid (u # urls) (fetched0, fl0, es0)
                    = (fetched0 @ [u], fl0 @ a, es0 @ b)"
        unfolding friend_page_loop_Cons using Some pl st True by simp
      have cov': "\<forall>p\<in>set [u]. \<forall>page' links'.
           fetched_links f e p = Some (page', links') \<longrightarrow> links_staged um bm sid a b page' links'"
        using c1 Some pl by simp
      show ?thesis
        apply (rule exI [of _ "[u]"], rule exI [of _ a], rule exI [of _ b])
        using step acc a1 b1 cov' by auto
    next
      case False
      then have na: "\<not> accepted_page f e u" using Some pl by (simp add: accepted_page_def)
      from Cons.IH [of "fetched0 @ [u]" "fl0 @ a" "es0 @ b"] obtain probed fl1 es1 where
        r: "friend_page_loop f e um bm sid urls (fetched0 @ [u], fl0 @ a, es0 @ b)
              = ((fetched0 @ [u]) @ probed, (fl0 @ a) @ fl1, (es0 @ b) @ es1)"
        and pre: "prefix probed urls"
        and nb: "\<forall>p\<in>set (butlast probed). \<not> accepted_page f e p"
        and stop: "probed \<noteq> urls \<longrightarrow> probed \<noteq> [] \<and> accepted_page f e (last probed)"
        and t1: "\<forall>x\<in>set fl1. \<exists>i pg. x = (sid, i, ''friend_page'', pg)"
        and t2: "\<forall>y\<in>set es1. \<exists>l dm pg. y = (l, dm, sid, pg, ''friend_page'')"
        and cov: "\<forall>p\<in>set probed. \<forall>page links.
             fetched_links f e p = Some (page, links) \<longrightarrow> links_staged um bm sid fl1 es1 page links"
        by blast
      have step: "friend_page_loop f e um bm sid (u # urls) (fetched0, fl0, es0)
                    = (fetched0 @ (u # probed), fl0 @ (a @ fl1), es0 @ (b @ es1))"
        unfolding friend_page_loop_Cons using Some pl st False r by simp
      have nb': "\<forall>p\<in>set (butlast (u # probed)). \<not> accepted_page f e p"
        using nb na by (cases probed) auto
      have stop': "u # probed \<noteq> u # urls \<longrightarrow> u # probed \<noteq> [] \<and> accepted_page f e (last (u # probed))"
        using stop by auto
      have t1': "\<forall>x\<in>set (a @ fl1). \<exists>i pg. x = (sid, i, ''friend_page'', pg)"
        using a1 t1 by auto
      have t2': "\<forall>y\<in>set (b @ es1). \<exists>l dm pg. y = (l, dm, sid, pg, ''friend_page'')"
        using b1 t2 by auto
      have cov': "\<forall>p\<in>set (u # probed). \<forall>page' links'.
           fetched_links f e p = Some (page', links')
             \<longrightarrow> links_staged um bm sid (a @ fl1) (b @ es1) page' links'"
      proof (intro ballI allI impI)
        fix p page' links'
        assume p: "p \<in> set (u # probed)" and fl: "fetched_links f e p = Some (page', links')"
        show "links_staged um bm sid (a @ fl1) (b @ es1) page' links'"
        proof (cases "p = u")
          case True
          with fl Some pl have "page' = page" "links' = links" by simp_all
          with c1 show ?thesis by (auto intro: links_staged_mono)
        next
          case False
          with p have "p \<in> set probed" by simp
          with cov fl have "links_staged um bm sid fl1 es1 page' links'" by blast
          then show ?thesis by (auto intro: links_staged_mono)
        qed
      qed
      show ?thesis
        apply (rule exI [of _ "u # probed"], rule exI [of _ "a @ fl1"], rule exI [of _ "b @ es1"])
        using step pre nb' stop' t1' t2' cov' by simp
    qed
  qed
qed

text \<open>
  C8. The crawl of one site probes a prefix of the first five candidate pages, so at
  most five; no page before the last probed one was accepted, and when the crawl stops
  before the end of the five, the last page it fetched gave more than three distinct
  links. The links of every probed page, so of the accepted one, are staged under
  \<^verbatim>\<open>friend_page\<close>, and every staged row carries \<^verbatim>\<open>homepage\<close> or \<^verbatim>\<open>friend_page\<close>.
\<close>

theorem friend_page_probing:
  assumes "stage_site_links f e find_pages st um bm = (fetched, fl, es)"
  shows "length fetched \<le> 5
         \<and> prefix fetched (take 5 (friend_page_candidates f find_pages st))
         \<and> (\<forall>p\<in>set (butlast fetched). \<not> accepted_page f e p)
         \<and> (fetched \<noteq> take 5 (friend_page_candidates f find_pages st)
              \<longrightarrow> fetched \<noteq> [] \<and> accepted_page f e (last fetched))
         \<and> (\<forall>p\<in>set fetched. \<forall>page links.
               fetched_links f e p = Some (page, links)
                 \<longrightarrow> links_staged um bm (s_id st) fl es page links)
         \<and> (\<forall>x\<in>set fl. \<exists>i lt pg. x = (s_id st, i, lt, pg)
               \<and> (lt = ''homepage'' \<or> lt = ''friend_page''))
         \<and> (\<forall>y\<in>set es. \<exists>l dm lt pg. y = (l, dm, s_id st, pg, lt)
               \<and> (lt = ''homepage'' \<or> lt = ''friend_page''))"
proof -
  let ?html = "case f (s_url st) of None \<Rightarrow> [] | Some (h, f) \<Rightarrow> h"
  let ?final = "case f (s_url st) of None \<Rightarrow> [] | Some (h, f) \<Rightarrow> f"
  let ?page = "if ?final \<noteq> [] then ?final else s_url st"
  let ?urls = "take 5 (friend_page_candidates f find_pages st)"
  obtain fl0 es0 where home:
    "(if ?html \<noteq> []
      then stage_links um bm (s_id st) ''homepage'' ?page (remdups (e ?html ?page)) ([], [])
      else ([], [])) = (fl0, es0)"
    by (cases "if ?html \<noteq> []
      then stage_links um bm (s_id st) ''homepage'' ?page (remdups (e ?html ?page)) ([], [])
      else ([], [])")
  have h1: "\<forall>x\<in>set fl0. \<exists>i. x = (s_id st, i, ''homepage'', ?page)"
    and h2: "\<forall>y\<in>set es0. \<exists>l dm. y = (l, dm, s_id st, ?page, ''homepage'')"
  proof -
    from stage_links_grows [of um bm "s_id st" "''homepage''" ?page "remdups (e ?html ?page)" "[]" "[]"]
    obtain a b where
      "stage_links um bm (s_id st) ''homepage'' ?page (remdups (e ?html ?page)) ([], []) = (a, b)"
      and "\<forall>x\<in>set a. \<exists>i. x = (s_id st, i, ''homepage'', ?page)"
      and "\<forall>y\<in>set b. \<exists>l dm. y = (l, dm, s_id st, ?page, ''homepage'')"
      by auto
    with home show "\<forall>x\<in>set fl0. \<exists>i. x = (s_id st, i, ''homepage'', ?page)"
      and "\<forall>y\<in>set es0. \<exists>l dm. y = (l, dm, s_id st, ?page, ''homepage'')"
      by (auto split: if_splits)
  qed
  have run: "stage_site_links f e find_pages st um bm
               = friend_page_loop f e um bm (s_id st) ?urls ([], fl0, es0)"
    using home by (simp add: stage_site_links_def friend_page_candidates_def Let_def)
  from friend_page_loop_trace [of f e um bm "s_id st" ?urls "[]" fl0 es0]
  obtain probed fl1 es1 where
    r: "friend_page_loop f e um bm (s_id st) ?urls ([], fl0, es0)
          = ([] @ probed, fl0 @ fl1, es0 @ es1)"
    and pre: "prefix probed ?urls"
    and nb: "\<forall>p\<in>set (butlast probed). \<not> accepted_page f e p"
    and stop: "probed \<noteq> ?urls \<longrightarrow> probed \<noteq> [] \<and> accepted_page f e (last probed)"
    and t1: "\<forall>x\<in>set fl1. \<exists>i pg. x = (s_id st, i, ''friend_page'', pg)"
    and t2: "\<forall>y\<in>set es1. \<exists>l dm pg. y = (l, dm, s_id st, pg, ''friend_page'')"
    and cov: "\<forall>p\<in>set probed. \<forall>page links.
           fetched_links f e p = Some (page, links)
             \<longrightarrow> links_staged um bm (s_id st) fl1 es1 page links"
    by blast
  from assms run r have eq: "fetched = probed" "fl = fl0 @ fl1" "es = es0 @ es1" by simp_all
  have len: "length fetched \<le> 5"
    using pre unfolding eq by (auto dest!: prefix_length_le)
  have cov': "\<forall>p\<in>set fetched. \<forall>page links.
               fetched_links f e p = Some (page, links)
                 \<longrightarrow> links_staged um bm (s_id st) fl es page links"
  proof (intro ballI allI impI)
    fix p page links
    assume "p \<in> set fetched" and "fetched_links f e p = Some (page, links)"
    with cov have "links_staged um bm (s_id st) fl1 es1 page links"
      unfolding eq by blast
    then show "links_staged um bm (s_id st) fl es page links"
      unfolding eq by (rule links_staged_mono) auto
  qed
  have tag1: "\<forall>x\<in>set fl. \<exists>i lt pg. x = (s_id st, i, lt, pg)
               \<and> (lt = ''homepage'' \<or> lt = ''friend_page'')"
    unfolding eq using h1 t1 by auto
  have tag2: "\<forall>y\<in>set es. \<exists>l dm lt pg. y = (l, dm, s_id st, pg, lt)
               \<and> (lt = ''homepage'' \<or> lt = ''friend_page'')"
    unfolding eq using h2 t2 by auto
  from len pre nb stop cov' tag1 tag2 show ?thesis
    unfolding eq by blast
qed

theorem friend_page_probing_witness:
  "stage_site_links example_fetch_page example_extract_links example_find_pages
     \<lparr>s_id = 1, s_name = ''A'', s_url = ''http://a.com''\<rparr>
     (fst (build_site_url_map (sites example_store)))
     (snd (build_site_url_map (sites example_store)))
   = ([''http://a.com/links'', ''http://a.com/friends''],
      [(1, 2, ''friend_page'', ''http://a.com/friends'')],
      [(''http://c.org'', ''c.org'', 1, ''http://a.com/friends'', ''friend_page''),
       (''http://d.net/blog'', ''d.net'', 1, ''http://a.com/friends'', ''friend_page''),
       (''http://e.io'', ''e.io'', 1, ''http://a.com/friends'', ''friend_page'')])
   \<and> accepted_page example_fetch_page example_extract_links ''http://a.com/friends''"
proof -
  have run: "stage_site_links example_fetch_page example_extract_links example_find_pages
     \<lparr>s_id = 1, s_name = ''A'', s_url = ''http://a.com''\<rparr>
     (fst (build_site_url_map (sites example_store)))
     (snd (build_site_url_map (sites example_store)))
   = ([''http://a.com/links'', ''http://a.com/friends''],
      [(1, 2, ''friend_page'', ''http://a.com/friends'')],
      [(''http://c.org'', ''c.org'', 1, ''http://a.com/friends'', ''friend_page''),
       (''http://d.net/blog'', ''d.net'', 1, ''http://a.com/friends'', ''friend_page''),
       (''http://e.io'', ''e.io'', 1, ''http://a.com/friends'', ''friend_page'')])"
    by code_simp
  have c: "take 5 (friend_page_candidates example_fetch_page example_find_pages
                     \<lparr>s_id = 1, s_name = ''A'', s_url = ''http://a.com''\<rparr>)
             \<noteq> [''http://a.com/links'', ''http://a.com/friends'']"
    by (simp add: friend_page_candidates_def example_find_pages_def)
  from friend_page_probing [OF run] c
  have "accepted_page example_fetch_page example_extract_links
          (last [''http://a.com/links'', ''http://a.com/friends''])"
    by metis
  with run show ?thesis by simp
qed

subsection \<open>Self-loops\<close>

lemma directed_graph_snoc:
  "directed_graph (links @ [(p, q)]) = append_adj (directed_graph links) p q"
  by (simp add: directed_graph_def load_data_from_db_def load_link_def split_beta)

lemma directed_graph_Nil: "directed_graph [] = []"
  by (simp add: directed_graph_def load_data_from_db_def)

lemma set_adj_directed:
  "set (adj (directed_graph links) a) = {b. (a, b) \<in> set links}"
proof (induction links rule: rev_induct)
  case Nil
  then show ?case by (simp add: directed_graph_Nil adj_Nil)
next
  case (snoc l links)
  obtain p q where l: "l = (p, q)" by (cases l)
  have "set (adj (directed_graph (links @ [(p, q)])) a)
          = set (adj (directed_graph links) a) \<union> (if a = p then {q} else {})"
    unfolding directed_graph_snoc adj_append_adj by simp
  also have "\<dots> = {b. (a, b) \<in> set (links @ [(p, q)])}"
    unfolding snoc.IH by auto
  finally show ?case by (simp only: l)
qed

lemma select_distinct_links_no_loop:
  "(a, b) \<in> set (select_distinct_links rows) \<Longrightarrow> a \<noteq> b"
  by (auto simp: select_distinct_links_def)

text \<open>
  C5, the claim as it stands fails. Site 1 links to an address on another domain that
  redirects back to site 1. The address is staged as a candidate; its promotion looks the
  final URL up in \<^verbatim>\<open>sites\<close>, finds site 1 and inserts the link from the discovering site
  1 to site 1. Neither \<^verbatim>\<open>process_external_site\<close> nor the batch commit of the crawl
  compares the two ids.
\<close>

theorem promotion_commits_self_loop:
  "friend_links (snd (process_external_site (Some (''html'', ''http://a.com'')) True ''A''
                        (candidate.truncate (example_candidate 2 ''d.com'' (Some 3)))
                        example_store))
     = [\<lparr>fl_id = 1, from_site_id = 1, to_site_id = 1, link_type = ''homepage'',
         page_url = ''http://a.com''\<rparr>]"
  by code_simp

text \<open>
  C5, as amended. The loaders of both analysers read only the rows with
  \<^verbatim>\<open>from_site_id != to_site_id\<close>: whatever the table holds, no loaded link is a
  self-loop, and no site is in its own adjacency list, directed or undirected.
\<close>

theorem loaded_graph_has_no_self_loop:
  "(\<forall>e\<in>set (select_distinct_links rows). fst e \<noteq> snd e)
   \<and> v \<notin> set (adj (directed_graph (select_distinct_links rows)) v)
   \<and> v \<notin> set (adj (undirected_graph (select_distinct_links rows)) v)"
  using select_distinct_links_no_loop [of _ _ rows]
  unfolding set_adj_directed set_adj_undirected by auto

theorem loaded_graph_has_no_self_loop_witness:
  "select_distinct_links
     [\<lparr>fl_id = 1, from_site_id = 1, to_site_id = 1, link_type = ''homepage'',
       page_url = ''http://a.com''\<rparr>,
      \<lparr>fl_id = 2, from_site_id = 1, to_site_id = 2, link_type = ''homepage'',
       page_url = ''http://a.com''\<rparr>] = [(1, 2)]
   \<and> 1 \<notin> set (adj (undirected_graph (select_distinct_links
       [\<lparr>fl_id = 1, from_site_id = 1, to_site_id = 1, link_type = ''homepage'',
         page_url = ''http://a.com''\<rparr>,
        \<lparr>fl_id = 2, from_site_id = 1, to_site_id = 2, link_type = ''homepage'',
         page_url = ''http://a.com''\<rparr>])) 1)"
proof -
  have "select_distinct_links
     [\<lparr>fl_id = 1, from_site_id = 1, to_site_id = 1, link_type = ''homepage'',
       page_url = ''http://a.com''\<rparr>,
      \<lparr>fl_id = 2, from_site_id = 1, to_site_id = 2, link_type = ''homepage'',
       page_url = ''http://a.com''\<rparr>] = [(1, 2)]"
    by (simp add: select_distinct_links_def)
  with loaded_graph_has_no_self_loop [of
     "[\<lparr>fl_id = 1, from_site_id = 1, to_site_id = 1, link_type = ''homepage'',
       page_url = ''http://a.com''\<rparr>,
      \<lparr>fl_id = 2, from_site_id = 1, to_site_id = 2, link_type = ''homepage'',
       page_url = ''http://a.com''\<rparr>]" 1]
  show ?thesis by simp
qed


subsection \<open>Resolution by domain\<close>

text \<open>
  C7. \<^verbatim>\<open>build_site_url_map\<close> and \<^verbatim>\<open>get_site_by_url\<close> remove every \<^verbatim>\<open>www.\<close> from the
  netloc, not a leading one only (the comment says prefix, and \<^verbatim>\<open>extract_domain\<close>
  strips the prefix). The host \<^verbatim>\<open>notwww.example.com\<close> becomes
  \<^verbatim>\<open>notexample.com\<close> and resolves to the site of that other domain.
\<close>

theorem domain_fallback_removes_inner_www:
  "get_site_by_url ''http://notwww.example.com/blog''
     (fst (build_site_url_map [\<lparr>s_id = 1, s_name = ''N'', s_url = ''http://notexample.com''\<rparr>]))
     (snd (build_site_url_map [\<lparr>s_id = 1, s_name = ''N'', s_url = ''http://notexample.com''\<rparr>]))
     = Some 1
   \<and> extract_domain ''http://notwww.example.com/blog'' = Some ''notwww.example.com''
   \<and> extract_domain ''http://notexample.com'' = Some ''notexample.com''"
  by code_simp

section \<open>Properties of the identity resolver\<close>

subsection \<open>The result of normalize\_url\<close>

lemma rstrip_Cons:
  "y \<noteq> c \<Longrightarrow> rstrip (y # ys) c = y # rstrip ys c"
  by (simp add: rstrip_def dropWhile_append)












lemma split_first:
  "c \<in> set xs \<Longrightarrow>
   xs = takeWhile (\<lambda>x. x \<noteq> c) xs @ c # drop 1 (dropWhile (\<lambda>x. x \<noteq> c) xs)"
proof -
  assume "c \<in> set xs"
  then have "dropWhile (\<lambda>x. x \<noteq> c) xs \<noteq> []" by (simp add: dropWhile_eq_Nil_conv)
  moreover from this have "hd (dropWhile (\<lambda>x. x \<noteq> c) xs) = c"
    using hd_dropWhile [of "\<lambda>x. x \<noteq> c" xs] by simp
  ultimately have "dropWhile (\<lambda>x. x \<noteq> c) xs = c # drop 1 (dropWhile (\<lambda>x. x \<noteq> c) xs)"
    by (cases "dropWhile (\<lambda>x. x \<noteq> c) xs") auto
  then show ?thesis
    by (metis takeWhile_dropWhile_id)
qed























lemma normalize_url_raises_on_unbalanced_bracket:
  "normalize_url ''http://['' = Inl ValueError"
  by code_simp




end
